theory Spec2Isabelle
  imports Complex_Main
begin

section \<open>Python exceptions\<close>

text \<open>
  The exceptions the modelled functions can raise. A function that can raise returns
  \<open>error + 'a\<close>, with \<open>Inl\<close> for the exception. \<open>NotANumber\<close> is no exception: it stands for
  a result that numpy fills with not-a-number or infinite values after a division by
  zero, where the elements of the model are exact reals, which do not have these values.
\<close>

datatype error = ValueError | IndexError | ZeroDivisionError | NotANumber

section \<open>scripts/scil\_validate\_bids.py\<close>

text \<open>
  \<^verbatim>\<open>
  def get_opposite_phase_encoding_direction(phase_encoding_direction):
      if len(phase_encoding_direction) == 2:
          return phase_encoding_direction[:-1]
      else:
          return phase_encoding_direction+'-'
  \<close>
  A Python string is a list of characters; \<open>s[:-1]\<close> is \<open>butlast s\<close>.
\<close>

definition get_opposite_phase_encoding_direction :: "string \<Rightarrow> string" where
  "get_opposite_phase_encoding_direction phase_encoding_direction =
     (if length phase_encoding_direction = 2 then butlast phase_encoding_direction
      else phase_encoding_direction @ ''-'')"

text \<open>The six values BIDS allows for the field PhaseEncodingDirection.\<close>

definition bids_directions :: "string list" where
  "bids_directions = [''i'', ''j'', ''k'', ''i-'', ''j-'', ''k-'']"

section \<open>Array helpers (numpy)\<close>

text \<open>
  A 4D image \<open>(X, Y, Z, N)\<close> is the list of its \<open>N\<close> volumes along the last axis. A
  volume is a value of a real vector space: voxelwise addition, the zero volume of
  \<open>np.zeros\<close>, division by a count. Intensities are exact reals, not floats, and the
  spatial shape \<open>(X, Y, Z)\<close> is not modelled.
\<close>

type_synonym 'v nifti = "'v list"

text \<open>\<open>a[..., start:stop]\<close>: a Python slice is cut at the end of the axis.\<close>

definition slice :: "'a list \<Rightarrow> nat \<Rightarrow> nat \<Rightarrow> 'a list" where
  "slice xs start stop = take (stop - start) (drop start xs)"

text \<open>\<open>a[..., mask]\<close> with a boolean mask: IndexError when the mask has another length.\<close>

definition bool_index :: "'a list \<Rightarrow> bool list \<Rightarrow> error + 'a list" where
  "bool_index xs bmask =
     (if length bmask \<noteq> length xs then Inl IndexError
      else Inr (map fst (filter snd (zip xs bmask))))"

fun mask_put :: "'a list \<Rightarrow> bool list \<Rightarrow> 'a list \<Rightarrow> 'a list" where
  "mask_put (x # xs) (True # ms) (v # vs) = v # mask_put xs ms vs"
| "mask_put (x # xs) (False # ms) vs = x # mask_put xs ms vs"
| "mask_put xs ms vs = xs"

text \<open>
  \<open>a[..., mask] = vals\<close>: the selected positions receive the values in order. The
  values are broadcast when there is exactly one; any other count that differs from
  the number of selected positions is a ValueError.
\<close>

definition mask_assign :: "'a list \<Rightarrow> bool list \<Rightarrow> 'a list \<Rightarrow> error + 'a list" where
  "mask_assign xs bmask vals =
     (if length bmask \<noteq> length xs then Inl IndexError
      else let k = length (filter id bmask) in
        if length vals = k then Inr (mask_put xs bmask vals)
        else if length vals = 1 then Inr (mask_put xs bmask (replicate k (hd vals)))
        else Inl ValueError)"

text \<open>\<open>a[indices]\<close> with an array of non-negative indices.\<close>

definition fancy_index :: "'a list \<Rightarrow> nat list \<Rightarrow> error + 'a list" where
  "fancy_index xs idxs =
     (if \<forall>i \<in> set idxs. i < length xs then Inr (map ((!) xs) idxs) else Inl IndexError)"

text \<open>\<open>np.where(mask)[0]\<close>: the positions of the True entries, increasing.\<close>

definition np_where :: "bool list \<Rightarrow> nat list" where
  "np_where bmask = filter ((!) bmask) [0..<length bmask]"

text \<open>\<open>np.unique\<close>: the sorted distinct elements.\<close>

definition np_unique :: "nat list \<Rightarrow> nat list" where
  "np_unique xs = remdups_adj (sort xs)"

text \<open>\<open>.astype(int)\<close> on a float: truncation towards zero.\<close>

definition astype_int :: "real \<Rightarrow> int" where
  "astype_int x = (if 0 \<le> x then \<lfloor>x\<rfloor> else \<lceil>x\<rceil>)"

section \<open>scilpy/image/utils.py and scilpy/gradients/bvec\_bval\_tools.py\<close>

text \<open>
  Modelled from the spec: \<open>volume_iterator\<close> (scilpy/image/utils.py is not among the
  sources). The spec: ``streams a 4D volume in fixed-size blocks along the last axis'';
  the callers unpack each item as \<open>(vi, data)\<close>, the indices of the block and its
  volumes, and pass \<open>(dwi, block_size)\<close> or \<open>(dwi, block_size, start, stop)\<close>. The
  model yields the consecutive blocks \<open>[start, start + blocksize)\<close>, ..., the last one
  cut at \<open>stop\<close>. A block size of 0 is outside the spec; the model then yields nothing.
\<close>

function volume_iterator ::
  "'v nifti \<Rightarrow> nat \<Rightarrow> nat \<Rightarrow> nat \<Rightarrow> (nat list \<times> 'v list) list" where
  "volume_iterator img blocksize start stop =
     (if blocksize = 0 \<or> stop \<le> start then []
      else let nxt = min (start + blocksize) stop in
        ([start..<nxt], slice img start nxt) # volume_iterator img blocksize nxt stop)"
  by pat_completeness auto
termination
  by (relation "measure (\<lambda>(img, blocksize, start, stop). stop - start)") auto

text \<open>
  Modelled from the spec: \<open>get_shell_indices\<close> (scilpy/gradients/bvec\_bval\_tools.py is
  not among the sources). The docstring of \<open>extract_dwi_shell\<close>: ``a b-value of 2000 and
  a tolerance of 20 will extract all volumes with a b-values from 1980 to 2020''.
\<close>

definition get_shell_indices :: "real list \<Rightarrow> int \<Rightarrow> int \<Rightarrow> nat list" where
  "get_shell_indices bvals shell tol =
     filter (\<lambda>i. real_of_int (shell - tol) \<le> bvals ! i \<and> bvals ! i \<le> real_of_int (shell + tol))
       [0..<length bvals]"

text \<open>
  Modelled from the spec: the enum \<open>B0ExtractionStrategy\<close> of the same module, also not
  among the sources. \<open>extract_b0\<close> names its members FIRST, MEAN and ALL (written
  \<open>ALL_B0\<close>, since \<open>ALL\<close> is reserved syntax); the spec: ``reduces via mean/first/all''.
\<close>

datatype B0ExtractionStrategy = FIRST | MEAN | ALL_B0

section \<open>scilpy/dwi/utils.py: extract\_dwi\_shell\<close>

text \<open>
  \<^verbatim>\<open>
  if block_size is None:
      block_size = dwi.shape[-1]
  \<close>
\<close>

definition default_block_size :: "nat option \<Rightarrow> 'v nifti \<Rightarrow> nat" where
  "default_block_size block_size dwi =
     (case block_size of None \<Rightarrow> length dwi | Some b \<Rightarrow> b)"

text \<open>
  The loading loop of \<open>extract_dwi_shell\<close>:
  \<^verbatim>\<open>
  for vi, data in volume_iterator(dwi, block_size):
      in_volume = np.array([i in vi for i in indices])
      in_data = np.array([i in indices for i in vi])
      shell_data[..., in_volume] = data[..., in_data]
  \<close>
  The first component of the state is the log of the blocks read from the image so far.
\<close>

fun load_shells ::
  "nat list \<Rightarrow> (nat list \<times> 'v list) list \<Rightarrow> nat list list \<Rightarrow> 'v list \<Rightarrow>
   nat list list \<times> (error + 'v list)" where
  "load_shells indices [] rlog shell_data = (rlog, Inr shell_data)"
| "load_shells indices ((vi, data) # rest) rlog shell_data =
     (let in_volume = map (\<lambda>i. i \<in> set vi) indices;
          in_data = map (\<lambda>i. i \<in> set indices) vi
      in case bool_index data in_data of
           Inl e \<Rightarrow> (rlog @ [vi], Inl e)
         | Inr selected \<Rightarrow>
             (case mask_assign shell_data in_volume selected of
                Inl e \<Rightarrow> (rlog @ [vi], Inl e)
              | Inr shell_data' \<Rightarrow> load_shells indices rest (rlog @ [vi]) shell_data'))"

text \<open>
  \<open>extract_dwi_shell(dwi, bvals, bvecs, bvals_to_extract, tol, block_size)\<close>. The result
  is the log of the blocks read, and either the exception or the tuple
  \<open>(indices, shell_data, output_bvals, output_bvecs)\<close>. \<open>np.hstack\<close> of an empty list
  raises ValueError, as the explicit check on \<open>len(indices)\<close> does. The call of
  \<open>logging.info\<close> reads no volume and is left out.
\<close>

definition extract_dwi_shell ::
  "'v::zero nifti \<Rightarrow> real list \<Rightarrow> 'b list \<Rightarrow> int list \<Rightarrow> int \<Rightarrow> nat option \<Rightarrow>
   nat list list \<times> (error + nat list \<times> 'v list \<times> int list list \<times> 'b list)" where
  "extract_dwi_shell dwi bvals bvecs bvals_to_extract tol block_size =
     (if bvals_to_extract = [] then ([], Inl ValueError)
      else
        let indices = np_unique (sort (concat
              (map (\<lambda>shell. get_shell_indices bvals shell tol) bvals_to_extract)))
        in if length indices = 0 then ([], Inl ValueError)
        else
          let bs = default_block_size block_size dwi;
              (rlog, loaded) = load_shells indices (volume_iterator dwi bs 0 (length dwi))
                                [] (replicate (length indices) 0)
          in (rlog,
              case loaded of
                Inl e \<Rightarrow> Inl e
              | Inr shell_data \<Rightarrow>
                  (case fancy_index bvals indices of
                     Inl e \<Rightarrow> Inl e
                   | Inr picked \<Rightarrow>
                       (case fancy_index bvecs indices of
                          Inl e \<Rightarrow> Inl e
                        | Inr output_bvecs \<Rightarrow>
                            Inr (indices, shell_data, [map astype_int picked], output_bvecs)))))"

text \<open>The first two statements of \<open>extract_dwi_shell\<close>, computing \<open>indices\<close>.\<close>

definition shell_union :: "real list \<Rightarrow> int list \<Rightarrow> int \<Rightarrow> nat list" where
  "shell_union bvals shells tol =
     np_unique (sort (concat (map (\<lambda>shell. get_shell_indices bvals shell tol) shells)))"

section \<open>scilpy/dwi/utils.py: extract\_b0\<close>

text \<open>
  The result of \<open>extract_b0\<close> is one volume (a 3D array) or a list of volumes along a
  last axis (a 4D array).
\<close>

datatype 'v ndarray = Vol3 'v | Vol4 "'v list"

text \<open>
  \<open>.squeeze()\<close> of a 4D array: a last axis of extent 1 is dropped (the spatial extents
  are taken to be larger than 1).
\<close>

definition squeeze :: "'v list \<Rightarrow> 'v ndarray" where
  "squeeze vols = (case vols of [v] \<Rightarrow> Vol3 v | _ \<Rightarrow> Vol4 vols)"

text \<open>
  \<open>np.ma.notmasked_contiguous(mask, axis=0)\<close> on a 1D masked array whose mask \<open>m\<close> has
  been materialised (by the assignment \<open>mask[~b0_mask] = np.ma.masked\<close>): numpy groups
  the mask with \<open>itertools.groupby\<close> and returns one \<open>slice(i, i + n)\<close> for each group of
  unmasked entries,
  \<^verbatim>\<open>
  i = 0
  result = []
  for (k, g) in itertools.groupby(m.ravel()):
      n = len(list(g))
      if not k:
          result.append(slice(i, i + n))
      i += n
  \<close>
  A slice is the pair \<open>(start, stop)\<close>.
\<close>

function notmasked_contiguous_from :: "nat \<Rightarrow> bool list \<Rightarrow> (nat \<times> nat) list" where
  "notmasked_contiguous_from i [] = []"
| "notmasked_contiguous_from i (k # m) =
     (let n = Suc (length (takeWhile (\<lambda>x. x = k) m))
      in (if \<not> k then [(i, i + n)] else []) @
         notmasked_contiguous_from (i + n) (dropWhile (\<lambda>x. x = k) m))"
  by pat_completeness auto
termination
  by (relation "measure (\<lambda>(i, m). length m)") (auto simp: length_dropWhile_le less_Suc_eq_le)

text \<open>
  \<^verbatim>\<open>
  mask = np.ma.masked_array(b0_mask)
  mask[~b0_mask] = np.ma.masked
  b0_clusters = np.ma.notmasked_contiguous(mask, axis=0)
  \<close>
\<close>

definition b0_clusters_of :: "bool list \<Rightarrow> (nat \<times> nat) list" where
  "b0_clusters_of b0_mask = notmasked_contiguous_from 0 (map Not b0_mask)"

text \<open>
  The loop over the blocks of one cluster:
  \<^verbatim>\<open>
  for vi, data in vol_it:
      if strategy == B0ExtractionStrategy.ALL:
          in_volume = np.array([i in vi for i in indices])
          output_b0[..., in_volume] = data
      elif strategy == B0ExtractionStrategy.MEAN:
          output_b0[..., idx] += np.sum(data, -1)
  \<close>
\<close>

fun cluster_blocks ::
  "B0ExtractionStrategy \<Rightarrow> nat list \<Rightarrow> nat \<Rightarrow> (nat list \<times> 'v::real_vector list) list \<Rightarrow>
   'v list \<Rightarrow> error + 'v list" where
  "cluster_blocks strategy indices idx [] output_b0 = Inr output_b0"
| "cluster_blocks strategy indices idx ((vi, data) # rest) output_b0 =
     (if strategy = ALL_B0 then
        (case mask_assign output_b0 (map (\<lambda>i. i \<in> set vi) indices) data of
           Inl e \<Rightarrow> Inl e
         | Inr output_b0' \<Rightarrow> cluster_blocks strategy indices idx rest output_b0')
      else if strategy = MEAN then
        (if idx < length output_b0
         then cluster_blocks strategy indices idx rest
                (output_b0[idx := output_b0 ! idx + sum_list data])
         else Inl IndexError)
      else cluster_blocks strategy indices idx rest output_b0)"

text \<open>
  The loop \<open>for idx, cluster in enumerate(b0_clusters)\<close>. With FIRST, the first volume
  of the cluster is stored at \<open>idx\<close> (an empty slice cannot be stored: ValueError); with
  MEAN the sum accumulated at \<open>idx\<close> is divided by \<open>cluster.stop - cluster.start\<close>, and
  \<open>0 / 0\<close> is not a number.
\<close>

fun cluster_loop ::
  "'v::real_vector nifti \<Rightarrow> nat \<Rightarrow> B0ExtractionStrategy \<Rightarrow> nat list \<Rightarrow>
   (nat \<times> nat \<times> nat) list \<Rightarrow> 'v list \<Rightarrow> error + 'v list" where
  "cluster_loop dwi bs strategy indices [] output_b0 = Inr output_b0"
| "cluster_loop dwi bs strategy indices ((idx, start, stop) # rest) output_b0 =
     (if strategy = FIRST then
        (case slice dwi start (start + 1) of
           [v] \<Rightarrow>
             if idx < length output_b0
             then cluster_loop dwi bs strategy indices rest (output_b0[idx := v])
             else Inl IndexError
         | _ \<Rightarrow> Inl ValueError)
      else
        (case cluster_blocks strategy indices idx (volume_iterator dwi bs start stop) output_b0 of
           Inl e \<Rightarrow> Inl e
         | Inr output_b0' \<Rightarrow>
             if strategy = MEAN then
               (if \<not> idx < length output_b0' then Inl IndexError
                else if stop - start = 0 then Inl NotANumber
                else cluster_loop dwi bs strategy indices rest
                       (output_b0'[idx := output_b0' ! idx /\<^sub>R real (stop - start)]))
             else cluster_loop dwi bs strategy indices rest output_b0'))"

text \<open>
  The loop of the last branch (MEAN over all b0 volumes):
  \<^verbatim>\<open>
  for cluster in b0_clusters:
      vol_it = volume_iterator(dwi, block_size, cluster.start, cluster.stop)
      for _, data in vol_it:
          output_b0 += np.sum(data, -1)
  \<close>
\<close>

fun sum_clusters ::
  "'v::real_vector nifti \<Rightarrow> nat \<Rightarrow> (nat \<times> nat) list \<Rightarrow> 'v \<Rightarrow> 'v" where
  "sum_clusters dwi bs [] output_b0 = output_b0"
| "sum_clusters dwi bs ((start, stop) # rest) output_b0 =
     sum_clusters dwi bs rest
       (fold (\<lambda>(vi, data) acc. acc + sum_list data) (volume_iterator dwi bs start stop) output_b0)"

text \<open>
  \<open>extract_b0(dwi, b0_mask, extract_in_cluster, strategy, block_size)\<close>. \<open>np.min\<close> of an
  empty array raises ValueError; the final division \<open>output_b0 /= len(indices)\<close> gives
  not-a-number values when there is no index.
\<close>

definition extract_b0 ::
  "'v::real_vector nifti \<Rightarrow> bool list \<Rightarrow> bool \<Rightarrow> B0ExtractionStrategy \<Rightarrow> nat option \<Rightarrow>
   error + 'v ndarray" where
  "extract_b0 dwi b0_mask extract_in_cluster strategy block_size =
     (let indices = np_where b0_mask;
          bs = default_block_size block_size dwi
      in if \<not> extract_in_cluster \<and> strategy = FIRST then
           (if indices = [] then Inl ValueError
            else let idx = Min (set indices) in Inr (squeeze (slice dwi idx (idx + 1))))
         else
           let b0_clusters = b0_clusters_of b0_mask
           in if extract_in_cluster \<or> strategy = ALL_B0 then
                let time_d = (if strategy = ALL_B0 then length indices else length b0_clusters)
                in (case cluster_loop dwi bs strategy indices (List.enumerate 0 b0_clusters)
                          (replicate time_d 0) of
                      Inl e \<Rightarrow> Inl e
                    | Inr output_b0 \<Rightarrow> Inr (Vol4 output_b0))
              else
                let output_b0 = sum_clusters dwi bs b0_clusters 0
                in if length indices = 0 then Inl NotANumber
                   else Inr (Vol3 (output_b0 /\<^sub>R real (length indices))))"

text \<open>
  The words of the claims about clusters: a maximal contiguous run of True entries of
  \<open>b0_mask\<close>, as the pair \<open>(start, stop)\<close> with \<open>stop\<close> excluded, and the list of all
  such runs in increasing order.
\<close>

definition maximal_run :: "bool list \<Rightarrow> nat \<times> nat \<Rightarrow> bool" where
  "maximal_run b0_mask r =
     (case r of (s, e) \<Rightarrow>
        s < e \<and> e \<le> length b0_mask \<and> (\<forall>i \<in> {s..<e}. b0_mask ! i) \<and>
        (s = 0 \<or> \<not> b0_mask ! (s - 1)) \<and> (e = length b0_mask \<or> \<not> b0_mask ! e))"

definition maximal_runs :: "bool list \<Rightarrow> (nat \<times> nat) list \<Rightarrow> bool" where
  "maximal_runs b0_mask rs =
     ((\<forall>r \<in> set rs. maximal_run b0_mask r) \<and>
      sorted_wrt (\<lambda>r r'. snd r < fst r') rs \<and>
      (\<forall>i \<in> set (np_where b0_mask). \<exists>r \<in> set rs. fst r \<le> i \<and> i < snd r))"

text \<open>The indices covered by a list of slices, in the order of the list.\<close>

definition run_indices :: "(nat \<times> nat) list \<Rightarrow> nat list" where
  "run_indices rs = concat (map (\<lambda>(s, e). [s..<e]) rs)"

section \<open>scilpy/dwi/utils.py: rescale\_dwi\<close>

text \<open>
  The elements of the arrays of \<open>rescale_dwi\<close> are floating-point values: a finite number,
  an infinity or not-a-number. A finite number is a real; the operations on doubles are
  taken as exact (a finite result is the real result, and the two zeros are one), and
  follow IEEE 754 where an operand is zero, infinite or not-a-number. The narrowing to
  single precision, which the source asks for, is modelled with its rounding.
\<close>

datatype ieee = Num real | PosInf | NegInf | NaN

text \<open>The order of the values that are numbers or infinities; not-a-number compares false.\<close>

fun ieee_le :: "ieee \<Rightarrow> ieee \<Rightarrow> bool" where
  "ieee_le NaN b = False"
| "ieee_le a NaN = False"
| "ieee_le NegInf b = True"
| "ieee_le a PosInf = True"
| "ieee_le (Num x) (Num y) = (x \<le> y)"
| "ieee_le a b = False"

definition signed_inf :: "bool \<Rightarrow> ieee" where
  "signed_inf positive = (if positive then PosInf else NegInf)"

text \<open>Subtraction, multiplication and division (\<open>-\<close>, \<open>*\<close> and \<open>/\<close> on numpy floats).\<close>

fun fsub :: "ieee \<Rightarrow> ieee \<Rightarrow> ieee" where
  "fsub NaN b = NaN"
| "fsub a NaN = NaN"
| "fsub (Num x) (Num y) = Num (x - y)"
| "fsub PosInf PosInf = NaN"
| "fsub NegInf NegInf = NaN"
| "fsub PosInf b = PosInf"
| "fsub NegInf b = NegInf"
| "fsub (Num x) PosInf = NegInf"
| "fsub (Num x) NegInf = PosInf"

fun fmul :: "ieee \<Rightarrow> ieee \<Rightarrow> ieee" where
  "fmul NaN b = NaN"
| "fmul a NaN = NaN"
| "fmul (Num x) (Num y) = Num (x * y)"
| "fmul PosInf (Num y) = (if y = 0 then NaN else signed_inf (0 < y))"
| "fmul NegInf (Num y) = (if y = 0 then NaN else signed_inf (y < 0))"
| "fmul (Num x) PosInf = (if x = 0 then NaN else signed_inf (0 < x))"
| "fmul (Num x) NegInf = (if x = 0 then NaN else signed_inf (x < 0))"
| "fmul PosInf PosInf = PosInf"
| "fmul NegInf NegInf = PosInf"
| "fmul PosInf NegInf = NegInf"
| "fmul NegInf PosInf = NegInf"

text \<open>
  A division by zero raises nothing on numpy floats: \<open>0 / 0\<close> is not-a-number, any other
  number over zero is an infinity.
\<close>

fun fdiv :: "ieee \<Rightarrow> ieee \<Rightarrow> ieee" where
  "fdiv NaN b = NaN"
| "fdiv a NaN = NaN"
| "fdiv (Num x) (Num y) =
     (if y = 0 then (if x = 0 then NaN else signed_inf (0 < x)) else Num (x / y))"
| "fdiv (Num x) b = Num 0"
| "fdiv PosInf (Num y) = signed_inf (0 \<le> y)"
| "fdiv NegInf (Num y) = signed_inf (y < 0)"
| "fdiv a b = NaN"

text \<open>
  The cast to \<open>np.float32\<close>: round to the nearest single-precision number, ties to the
  even one. Around \<open>x\<close> these numbers are the multiples of \<open>ulp32 x\<close>, which is \<open>2^(e - 23)\<close>
  for \<open>2^e \<le> |x| < 2^(e + 1)\<close> and \<open>2^(-149)\<close> below \<open>2^(-126)\<close>; a result of magnitude
  \<open>2^128\<close> is out of range and becomes an infinity.
\<close>

definition round_half_even :: "real \<Rightarrow> int" where
  "round_half_even x =
     (let f = \<lfloor>x\<rfloor>
      in if x - of_int f < 1 / 2 then f
         else if x - of_int f > 1 / 2 then f + 1
         else if even f then f else f + 1)"

definition ulp32 :: "real \<Rightarrow> real" where
  "ulp32 x = 2 powr of_int (max \<lfloor>log 2 \<bar>x\<bar>\<rfloor> (- 126) - 23)"

definition float32 :: "real \<Rightarrow> ieee" where
  "float32 x =
     (if x = 0 then Num 0
      else let y = of_int (round_half_even (x / ulp32 x)) * ulp32 x
           in if 2 powr 128 \<le> \<bar>y\<bar> then (if 0 < x then PosInf else NegInf) else Num y)"

definition astype_float32 :: "ieee \<Rightarrow> ieee" where
  "astype_float32 v = (case v of Num x \<Rightarrow> float32 x | other \<Rightarrow> other)"



text \<open>
  \<open>rescale_dwi\<close> rewrites the array it is given, so arrays live in a store: an array
  object is an address, and the store gives its contents; arrays at different addresses
  share no memory. The contents are the list of
  the sub-arrays along the first axis (what \<open>len\<close> counts and \<open>a[i:j]\<close> slices), each
  flattened to the list of its elements.
\<close>

type_synonym array = "ieee list list"
type_synonym store = "nat \<Rightarrow> array"

text \<open>
  \<open>np.amin\<close> and \<open>np.amax\<close> over all elements: ValueError on an array without elements,
  not-a-number as soon as one element is.
\<close>

definition np_min2 :: "ieee \<Rightarrow> ieee \<Rightarrow> ieee" where
  "np_min2 a b = (if a = NaN \<or> b = NaN then NaN else if ieee_le a b then a else b)"

definition np_max2 :: "ieee \<Rightarrow> ieee \<Rightarrow> ieee" where
  "np_max2 a b = (if a = NaN \<or> b = NaN then NaN else if ieee_le a b then b else a)"

definition amin :: "array \<Rightarrow> error + ieee" where
  "amin arr = (case concat arr of [] \<Rightarrow> Inl ValueError | x # xs \<Rightarrow> Inr (fold np_min2 xs x))"

definition amax :: "array \<Rightarrow> error + ieee" where
  "amax arr = (case concat arr of [] \<Rightarrow> Inl ValueError | x # xs \<Rightarrow> Inr (fold np_max2 xs x))"

text \<open>
  \<^verbatim>\<open>
  def _rescale_intensity(val, slope, in_max, bc_max):
      return in_max - slope * (bc_max - val)
  \<close>
\<close>

definition rescale_intensity :: "ieee \<Rightarrow> ieee \<Rightarrow> ieee \<Rightarrow> ieee \<Rightarrow> ieee" where
  "rescale_intensity val slope in_max bc_max = fsub in_max (fmul slope (fsub bc_max val))"

text \<open>
  \<^verbatim>\<open>
  rescale_func = np.vectorize(_rescale_intensity, otypes=[np.float32])
  \<close>
  applied to one element: the result of \<open>_rescale_intensity\<close>, cast to \<open>np.float32\<close>.
\<close>

definition rescale_func :: "ieee \<Rightarrow> ieee \<Rightarrow> ieee \<Rightarrow> ieee \<Rightarrow> ieee" where
  "rescale_func slope in_max bc_max val = astype_float32 (rescale_intensity val slope in_max bc_max)"

text \<open>
  \<^verbatim>\<open>
  chunk = np.arange(0, len(in_data), 100000)
  chunk = np.append(chunk, len(in_data))
  \<close>
  with the step as a parameter: the multiples of the step below \<open>n\<close>, then \<open>n\<close>.
\<close>

definition chunk_bounds :: "nat \<Rightarrow> nat \<Rightarrow> nat list" where
  "chunk_bounds step n = map (\<lambda>k. k * step) [0..<(n + step - 1) div step] @ [n]"

text \<open>
  \<^verbatim>\<open>
  for i in range(len(chunk)-1):
      nz_bc_data = bc_data[chunk[i]:chunk[i+1]]
      rescale_func = np.vectorize(_rescale_intensity, otypes=[np.float32])
      rescaled_data = rescale_func(nz_bc_data, slope, in_max, bc_max)
      bc_data[chunk[i]:chunk[i+1]] = rescaled_data
  \<close>
  Each step writes the store at the address of \<open>bc_data\<close>, between the two bounds; \<open>f\<close> is
  \<open>rescale_func\<close> with its three fixed arguments.
\<close>

fun rescale_chunks :: "(ieee \<Rightarrow> ieee) \<Rightarrow> nat \<Rightarrow> nat list \<Rightarrow> store \<Rightarrow> store" where
  "rescale_chunks f bc_data (a # b # chunk) h =
     rescale_chunks f bc_data (b # chunk)
       (h(bc_data := take a (h bc_data) @ map (map f) (slice (h bc_data) a b) @ drop b (h bc_data)))"
| "rescale_chunks f bc_data chunk h = h"

text \<open>
  \<open>rescale_dwi(in_data, bc_data)\<close>, with the chunk step as a parameter; the source's
  step is 100000 (\<open>np.arange\<close> with step 0 raises ZeroDivisionError). With
  \<open>bc_max = bc_min\<close> the slope is a division by zero: the call goes on and writes
  not-a-number values. The function returns the object \<open>bc_data\<close>, that is its address,
  and the new store.
\<close>

definition rescale_dwi_chunked :: "nat \<Rightarrow> store \<Rightarrow> nat \<Rightarrow> nat \<Rightarrow> error + nat \<times> store" where
  "rescale_dwi_chunked step h in_data bc_data =
     (case amin (h in_data) of
        Inl e \<Rightarrow> Inl e
      | Inr in_min \<Rightarrow>
     (case amax (h in_data) of
        Inl e \<Rightarrow> Inl e
      | Inr in_max \<Rightarrow>
     (case amin (h bc_data) of
        Inl e \<Rightarrow> Inl e
      | Inr bc_min \<Rightarrow>
     (case amax (h bc_data) of
        Inl e \<Rightarrow> Inl e
      | Inr bc_max \<Rightarrow>
          let slope = fdiv (fsub in_max in_min) (fsub bc_max bc_min)
          in if step = 0 then Inl ZeroDivisionError
             else Inr (bc_data,
                       rescale_chunks (rescale_func slope in_max bc_max) bc_data
                         (chunk_bounds step (length (h in_data))) h)))))"

definition rescale_dwi :: "store \<Rightarrow> nat \<Rightarrow> nat \<Rightarrow> error + nat \<times> store" where
  "rescale_dwi = rescale_dwi_chunked 100000"

text \<open>An array whose sub-arrays at the positions from \<open>a\<close> up to \<open>b\<close> (excluded) are mapped elementwise.\<close>

definition rescale_rows :: "('a \<Rightarrow> 'a) \<Rightarrow> nat \<Rightarrow> nat \<Rightarrow> 'a list list \<Rightarrow> 'a list list" where
  "rescale_rows f a b arr =
     map (\<lambda>(i, row). if a \<le> i \<and> i < b then map f row else row) (zip [0..<length arr] arr)"

section \<open>scilpy/io/gradient\_table.py\<close>

text \<open>
  \<open>xs[i]\<close> for a Python integer \<open>i\<close>: a negative index counts from the end, an index out
  of range raises IndexError. \<open>py_get\<close> is the element read when the index is in range.
\<close>

definition py_get :: "'a list \<Rightarrow> int \<Rightarrow> 'a" where
  "py_get xs i = xs ! nat (if i < 0 then int (length xs) + i else i)"

definition py_index :: "'a list \<Rightarrow> int \<Rightarrow> error + 'a" where
  "py_index xs i =
     (if - int (length xs) \<le> i \<and> i < int (length xs) then Inr (py_get xs i) else Inl IndexError)"

text \<open>
  A 2D array is the list of its rows, all of one length. \<open>m[r, c]\<close> with \<open>r\<close> and \<open>c\<close>
  not negative; \<open>m.shape[1]\<close> is the length of the rows (an array without rows is taken
  to have no columns).
\<close>

definition index2 :: "real list list \<Rightarrow> nat \<Rightarrow> nat \<Rightarrow> error + real" where
  "index2 m r c = (if r < length m \<and> c < length (m ! r) then Inr (m ! r ! c) else Inl IndexError)"

definition shape1 :: "real list list \<Rightarrow> nat" where
  "shape1 m = (case m of [] \<Rightarrow> 0 | row # rows \<Rightarrow> length row)"

text \<open>
  What a writer leaves behind: the files written, in order, each with its name and its
  lines, and the exception that stopped it, if any. A line is the list of the numbers on
  it; the formats (\<open>{:.8f}\<close>, \<open>%.8f\<close>, \<open>%.3f\<close>) are not modelled.
\<close>

type_synonym written = "(string \<times> real list list) list \<times> error option"

text \<open>
  One line of the MRtrix table: the arguments of \<open>format\<close> are evaluated from left to
  right,
  \<^verbatim>\<open>
  f.write('{:.8f} {:.8f} {:.8f} {:}\n'
          .format(bvecs[0, idx], bvecs[1, idx], bvecs[2, idx],
                  bvals[shell_idx[idx]]))
  \<close>
\<close>

definition mrtrix_line :: "real list list \<Rightarrow> int list \<Rightarrow> real list \<Rightarrow> nat \<Rightarrow> error + real list" where
  "mrtrix_line bvecs shell_idx bvals idx =
     (case index2 bvecs 0 idx of
        Inl e \<Rightarrow> Inl e
      | Inr x \<Rightarrow>
          (case index2 bvecs 1 idx of
             Inl e \<Rightarrow> Inl e
           | Inr y \<Rightarrow>
               (case index2 bvecs 2 idx of
                  Inl e \<Rightarrow> Inl e
                | Inr z \<Rightarrow>
                    if \<not> idx < length shell_idx then Inl IndexError
                    else (case py_index bvals (shell_idx ! idx) of
                            Inl e \<Rightarrow> Inl e
                          | Inr b \<Rightarrow> Inr [x, y, z, b]))))"

text \<open>The loop \<open>for idx in range(bvecs.shape[1])\<close>: the lines written, and the exception.\<close>

fun mrtrix_lines ::
  "real list list \<Rightarrow> int list \<Rightarrow> real list \<Rightarrow> nat list \<Rightarrow> real list list \<times> error option" where
  "mrtrix_lines bvecs shell_idx bvals [] = ([], None)"
| "mrtrix_lines bvecs shell_idx bvals (idx # rest) =
     (case mrtrix_line bvecs shell_idx bvals idx of
        Inl e \<Rightarrow> ([], Some e)
      | Inr l \<Rightarrow>
          (case mrtrix_lines bvecs shell_idx bvals rest of (ls, e) \<Rightarrow> (l # ls, e)))"

definition save_gradient_sampling_mrtrix ::
  "real list list \<Rightarrow> int list \<Rightarrow> real list \<Rightarrow> string \<Rightarrow> written" where
  "save_gradient_sampling_mrtrix bvecs shell_idx bvals filename =
     (case mrtrix_lines bvecs shell_idx bvals [0..<shape1 bvecs] of
        (ls, e) \<Rightarrow> ([(filename, ls)], e))"

text \<open>The list comprehension \<open>[bvals[idx] for idx in shell_idx]\<close>.\<close>

fun index_all :: "real list \<Rightarrow> int list \<Rightarrow> error + real list" where
  "index_all bvals [] = Inr []"
| "index_all bvals (idx # rest) =
     (case py_index bvals idx of
        Inl e \<Rightarrow> Inl e
      | Inr b \<Rightarrow> (case index_all bvals rest of Inl e \<Rightarrow> Inl e | Inr bs \<Rightarrow> Inr (b # bs)))"

text \<open>
  \<^verbatim>\<open>
  np.savetxt(filename_bvec, bvecs, fmt='%.8f')
  np.savetxt(filename_bval,
             np.array([bvals[idx] for idx in shell_idx])[None, :],
             fmt='%.3f')
  \<close>
  The bvec file is written before the list comprehension is evaluated.
\<close>

definition save_gradient_sampling_fsl ::
  "real list list \<Rightarrow> int list \<Rightarrow> real list \<Rightarrow> string \<Rightarrow> string \<Rightarrow> written" where
  "save_gradient_sampling_fsl bvecs shell_idx bvals filename_bval filename_bvec =
     (case index_all bvals shell_idx of
        Inl e \<Rightarrow> ([(filename_bvec, bvecs)], Some e)
      | Inr row \<Rightarrow> ([(filename_bvec, bvecs), (filename_bval, [row])], None))"

section \<open>scripts/scil\_remove\_invalid\_streamlines.py\<close>

text \<open>
  A tractogram (dipy's \<open>StatefulTractogram\<close>): the streamlines, each a list of points in
  voxel coordinates, the per-point and per-streamline data (dictionaries from a key to
  one entry per streamline), and the dimensions of the volume. A tractogram holds one
  entry of every data array per streamline.
\<close>

type_synonym point = "real \<times> real \<times> real"

record ('p, 'd) tractogram =
  streamlines :: "point list list"
  data_per_point :: "string \<rightharpoonup> 'p list"
  data_per_streamline :: "string \<rightharpoonup> 'd list"
  dimensions :: "real \<times> real \<times> real"

text \<open>\<open>a[indices]\<close> on the streamlines and on every array of a data dictionary.\<close>

definition select :: "'a list \<Rightarrow> nat list \<Rightarrow> 'a list" where
  "select xs indices = map (\<lambda>i. xs ! i) indices"

definition select_dict :: "(string \<rightharpoonup> 'a list) \<Rightarrow> nat list \<Rightarrow> (string \<rightharpoonup> 'a list)" where
  "select_dict d indices = (\<lambda>key. map_option (\<lambda>xs. select xs indices) (d key))"

text \<open>
  The docstring of the script: ``In voxel space no negative coordinate and no above
  volume dimension coordinate are possible. Any streamline that do not respect these
  two conditions are removed.''
\<close>

definition point_in_bounds :: "real \<times> real \<times> real \<Rightarrow> point \<Rightarrow> bool" where
  "point_in_bounds dims p =
     (case (dims, p) of ((dx, dy, dz), (x, y, z)) \<Rightarrow>
        \<not> x < 0 \<and> \<not> y < 0 \<and> \<not> z < 0 \<and> \<not> x > dx \<and> \<not> y > dy \<and> \<not> z > dz)"

definition valid_streamline :: "real \<times> real \<times> real \<Rightarrow> point list \<Rightarrow> bool" where
  "valid_streamline dims sl = (\<forall>p \<in> set sl. point_in_bounds dims p)"

text \<open>
  dipy's method \<open>sft.remove_invalid_streamlines()\<close>, after that docstring: the
  streamlines and both data dictionaries are restricted to the indices of the valid
  streamlines.
\<close>

definition remove_invalid_streamlines :: "('p, 'd) tractogram \<Rightarrow> ('p, 'd) tractogram" where
  "remove_invalid_streamlines sft =
     (let indices_to_keep =
            filter (\<lambda>i. valid_streamline (dimensions sft) (streamlines sft ! i))
              [0..<length (streamlines sft)]
      in sft\<lparr>streamlines := select (streamlines sft) indices_to_keep,
             data_per_point := select_dict (data_per_point sft) indices_to_keep,
             data_per_streamline := select_dict (data_per_streamline sft) indices_to_keep\<rparr>)"

text \<open>
  \<open>main\<close>, from the loaded tractogram to the tractogram given to \<open>save_tractogram\<close> and the
  number in the logged message:
  \<^verbatim>\<open>
  ori_len = len(sft)
  sft.remove_invalid_streamlines()
  if args.remove_single_point:
      indices = [i for i in range(len(sft)) if len(sft.streamlines[i]) > 1]
  else:
      indices = range(len(sft))
  new_sft = StatefulTractogram.from_sft(
      sft.streamlines[indices], sft,
      data_per_point=sft.data_per_point[indices],
      data_per_streamline=sft.data_per_streamline[indices])
  logging.warning('Removed {} invalid streamlines.'.format(ori_len - len(new_sft)))
  \<close>
\<close>

definition remove_invalid_main ::
  "bool \<Rightarrow> ('p, 'd) tractogram \<Rightarrow> ('p, 'd) tractogram \<times> int" where
  "remove_invalid_main remove_single_point loaded =
     (let ori_len = length (streamlines loaded);
          sft = remove_invalid_streamlines loaded;
          indices = (if remove_single_point
                     then filter (\<lambda>i. length (streamlines sft ! i) > 1) [0..<length (streamlines sft)]
                     else [0..<length (streamlines sft)]);
          new_sft = sft\<lparr>streamlines := select (streamlines sft) indices,
                         data_per_point := select_dict (data_per_point sft) indices,
                         data_per_streamline := select_dict (data_per_streamline sft) indices\<rparr>
      in (new_sft, int ori_len - int (length (streamlines new_sft))))"

text \<open>
  The streamlines the script is to keep: those within the bounds and, with
  \<open>--remove_single_point\<close>, of more than one point.
\<close>

definition kept_streamline :: "bool \<Rightarrow> real \<times> real \<times> real \<Rightarrow> point list \<Rightarrow> bool" where
  "kept_streamline remove_single_point dims sl =
     (valid_streamline dims sl \<and> (remove_single_point \<longrightarrow> length sl > 1))"

section \<open>Phase-encoding direction\<close>

text \<open>
  C10: on a string of length 2 the function strips the last character, on a string of
  length 1 it appends \<open>-\<close>. Every phase-encoding direction has length 1 or 2, its opposite
  is a phase-encoding direction again, and applying the function twice gives the
  direction back.
\<close>

theorem opposite_direction_involution:
  assumes "d \<in> set bids_directions"
  shows "(length s = 2 \<longrightarrow> get_opposite_phase_encoding_direction s = butlast s) \<and>
         (length s = 1 \<longrightarrow> get_opposite_phase_encoding_direction s = s @ ''-'') \<and>
         (length d = 1 \<or> length d = 2) \<and>
         get_opposite_phase_encoding_direction d \<in> set bids_directions \<and>
         get_opposite_phase_encoding_direction (get_opposite_phase_encoding_direction d) = d"
proof -
  have strip: "(length s = 2 \<longrightarrow> get_opposite_phase_encoding_direction s = butlast s) \<and>
      (length s = 1 \<longrightarrow> get_opposite_phase_encoding_direction s = s @ ''-'')"
    by (simp add: get_opposite_phase_encoding_direction_def)
  from assms consider "d = ''i''" | "d = ''j''" | "d = ''k''"
    | "d = ''i-''" | "d = ''j-''" | "d = ''k-''"
    by (auto simp: bids_directions_def)
  then have "(length d = 1 \<or> length d = 2) \<and>
      get_opposite_phase_encoding_direction d \<in> set bids_directions \<and>
      get_opposite_phase_encoding_direction (get_opposite_phase_encoding_direction d) = d"
    by cases (simp_all add: bids_directions_def get_opposite_phase_encoding_direction_def)
  with strip show ?thesis
    by blast
qed

theorem opposite_direction_involution_witness:
  "''j-'' \<in> set bids_directions \<and> length ''j-'' = 2 \<and>
   get_opposite_phase_encoding_direction ''j-'' = ''j'' \<and>
   get_opposite_phase_encoding_direction ''j'' = ''j-'' \<and>
   get_opposite_phase_encoding_direction (get_opposite_phase_encoding_direction ''j-'') = ''j-''"
  using opposite_direction_involution [of "''j-''" "''j-''"]
    opposite_direction_involution [of "''j-''" "''j''"]
  by (simp add: bids_directions_def)

section \<open>Shell extraction\<close>

lemma sorted_distinct_remdups_adj: "sorted xs \<Longrightarrow> distinct (remdups_adj (xs :: nat list))"
proof (induction xs rule: remdups_adj.induct)
  case (3 x y xs)
  then show ?case by fastforce
qed auto


lemma np_unique_sorted: "sorted (np_unique xs)"
  by (simp add: np_unique_def)

lemma np_unique_distinct: "distinct (np_unique xs)"
  by (simp add: np_unique_def sorted_distinct_remdups_adj)

lemma np_unique_set: "set (np_unique xs) = set xs"
  by (simp add: np_unique_def)

lemma mask_put_map:
  "length S = length idxs \<Longrightarrow>
   mask_put S (map P idxs) (map f (filter P idxs)) =
   map (\<lambda>(s, i). if P i then f i else s) (zip S idxs)"
proof (induction idxs arbitrary: S)
  case Nil
  then show ?case by simp
next
  case (Cons i idxs)
  then obtain s S' where S: "S = s # S'" "length S' = length idxs"
    by (cases S) auto
  with Cons.IH [of S'] show ?case by simp
qed

lemma slice_map_nth:
  "stop \<le> length xs \<Longrightarrow> slice xs start stop = map ((!) xs) [start..<stop]"
  unfolding slice_def
  by (auto simp: list_eq_iff_nth_eq)

lemma filter_zip_map:
  "map fst (filter snd (zip (map g xs) (map Q xs))) = map g (filter Q xs)"
  by (induction xs) auto

lemma bool_index_slice:
  "stop \<le> length img \<Longrightarrow>
   bool_index (slice img start stop) (map Q [start..<stop]) =
   Inr (map ((!) img) (filter Q [start..<stop]))"
  by (simp add: bool_index_def slice_map_nth filter_zip_map)

lemma filter_mem_swap:
  assumes "sorted xs" "distinct xs"
  shows "filter (\<lambda>i. i \<in> set xs) [a..<b] = filter (\<lambda>i. i \<in> set [a..<b]) xs"
  by (rule sorted_distinct_set_unique) (use assms in \<open>auto intro: sorted_wrt_filter\<close>)

lemma length_filter_id_map: "length (filter id (map P xs)) = length (filter P xs)"
  by (induction xs) auto

lemma block_assign:
  assumes "sorted indices" "distinct indices" "stop \<le> length img"
    "length S = length indices"
  shows "\<exists>sel. bool_index (slice img start stop) (map (\<lambda>i. i \<in> set indices) [start..<stop]) = Inr sel \<and>
     mask_assign S (map (\<lambda>i. i \<in> set [start..<stop]) indices) sel =
     Inr (map (\<lambda>(s, i). if start \<le> i \<and> i < stop then img ! i else s) (zip S indices))"
proof -
  let ?sel = "map ((!) img) (filter (\<lambda>i. i \<in> set [start..<stop]) indices)"
  have b: "bool_index (slice img start stop) (map (\<lambda>i. i \<in> set indices) [start..<stop]) = Inr ?sel"
    using assms by (simp add: bool_index_slice filter_mem_swap del: set_upt)
  have "mask_assign S (map (\<lambda>i. i \<in> set [start..<stop]) indices) ?sel =
     Inr (map (\<lambda>(s, i). if i \<in> set [start..<stop] then img ! i else s) (zip S indices))"
    using assms(4) by (simp add: mask_assign_def length_filter_id_map mask_put_map del: set_upt)
  then show ?thesis using b by simp
qed

declare volume_iterator.simps [simp del]

lemma load_shells_iter:
  assumes "sorted indices" "distinct indices"
  shows "stop \<le> length img \<Longrightarrow> length S = length indices \<Longrightarrow>
     load_shells indices (volume_iterator img bs start stop) lg S =
     (lg @ map fst (volume_iterator img bs start stop),
      Inr (map (\<lambda>(s, i). if bs \<noteq> 0 \<and> start \<le> i \<and> i < stop then img ! i else s)
             (zip S indices)))"
proof (induction img bs start stop arbitrary: lg S rule: volume_iterator.induct)
  case (1 img bs start stop)
  show ?case
  proof (cases "bs = 0 \<or> stop \<le> start")
    case True
    have "map (\<lambda>(s, i). if bs \<noteq> 0 \<and> start \<le> i \<and> i < stop then img ! i else s)
             (zip S indices) = S"
      using True "1.prems"(2) by (auto simp: list_eq_iff_nth_eq)
    with True show ?thesis
      by (simp add: volume_iterator.simps [of img bs start stop])
  next
    case False
    define nxt where "nxt = min (start + bs) stop"
    define S' where "S' = map (\<lambda>(s, i). if start \<le> i \<and> i < nxt then img ! i else s) (zip S indices)"
    have nxt: "start < nxt" "nxt \<le> stop" "nxt \<le> length img"
      using False "1.prems"(1) by (auto simp: nxt_def)
    have it: "volume_iterator img bs start stop =
        ([start..<nxt], slice img start nxt) # volume_iterator img bs nxt stop"
      using False by (simp add: volume_iterator.simps [of img bs start stop] nxt_def Let_def)
    obtain sel where sel:
      "bool_index (slice img start nxt) (map (\<lambda>i. i \<in> set indices) [start..<nxt]) = Inr sel"
      "mask_assign S (map (\<lambda>i. i \<in> set [start..<nxt]) indices) sel = Inr S'"
      using block_assign [OF assms nxt(3) "1.prems"(2), of start] unfolding S'_def by blast
    have len: "length S' = length indices"
      using "1.prems"(2) by (simp add: S'_def)
    have IH: "load_shells indices (volume_iterator img bs nxt stop) (lg @ [[start..<nxt]]) S' =
       ((lg @ [[start..<nxt]]) @ map fst (volume_iterator img bs nxt stop),
        Inr (map (\<lambda>(s, i). if bs \<noteq> 0 \<and> nxt \<le> i \<and> i < stop then img ! i else s)
             (zip S' indices)))"
      using "1.IH" [OF False nxt_def "1.prems"(1) len] .
    have fin: "map (\<lambda>(s, i). if bs \<noteq> 0 \<and> nxt \<le> i \<and> i < stop then img ! i else s) (zip S' indices)
       = map (\<lambda>(s, i). if bs \<noteq> 0 \<and> start \<le> i \<and> i < stop then img ! i else s) (zip S indices)"
      using False nxt "1.prems"(2) by (auto simp: list_eq_iff_nth_eq S'_def)
    show ?thesis
      unfolding it using sel IH fin by (simp del: set_upt)
  qed
qed

lemma shell_union_props:
  "sorted (shell_union bvals shells tol)" "distinct (shell_union bvals shells tol)"
  "set (shell_union bvals shells tol) = (\<Union>s \<in> set shells. set (get_shell_indices bvals s tol))"
  by (simp_all add: shell_union_def np_unique_sorted np_unique_distinct np_unique_set)

lemma shell_union_bound: "i \<in> set (shell_union bvals shells tol) \<Longrightarrow> i < length bvals"
  by (auto simp: shell_union_props(3) get_shell_indices_def)

lemma replicate_zip_map:
  "map (\<lambda>(s, i). if c i then f i else s) (zip (replicate (length xs) z) xs) =
   map (\<lambda>i. if c i then f i else z) xs"
  by (induction xs) auto

lemma extract_dwi_shell_eq:
  fixes dwi :: "'v::zero nifti"
  shows "extract_dwi_shell dwi bvals bvecs shells tol block_size =
    (let indices = shell_union bvals shells tol in
     if indices = [] then ([], Inl ValueError)
     else (map fst (volume_iterator dwi (default_block_size block_size dwi) 0 (length dwi)),
       case fancy_index bvecs indices of
         Inl e \<Rightarrow> Inl e
       | Inr output_bvecs \<Rightarrow>
           Inr (indices,
                map (\<lambda>i. if default_block_size block_size dwi \<noteq> 0 \<and> i < length dwi then dwi ! i else 0) indices,
                [map (\<lambda>i. astype_int (bvals ! i)) indices], output_bvecs)))"
proof (cases "shells = []")
  case True
  then show ?thesis
    by (simp add: extract_dwi_shell_def shell_union_def np_unique_def)
next
  case False
  let ?idx = "shell_union bvals shells tol"
  let ?bs = "default_block_size block_size dwi"
  have ld: "load_shells ?idx (volume_iterator dwi ?bs 0 (length dwi)) [] (replicate (length ?idx) 0) =
     (map fst (volume_iterator dwi ?bs 0 (length dwi)),
      Inr (map (\<lambda>i. if ?bs \<noteq> 0 \<and> i < length dwi then dwi ! i else 0) ?idx))"
    using load_shells_iter [OF shell_union_props(1,2), of "length dwi" dwi "replicate (length ?idx) 0" bvals shells tol ?bs 0 "[]"]
    by (simp add: replicate_zip_map)
  have fb: "fancy_index bvals ?idx = Inr (map ((!) bvals) ?idx)"
    by (simp add: fancy_index_def shell_union_bound)
  show ?thesis
    using False ld fb
    by (simp add: extract_dwi_shell_def shell_union_def [symmetric] Let_def comp_def
        split: sum.splits)
qed

text \<open>
  C1: for every block size of at least 1, \<open>extract_dwi_shell\<close> returns the same
  \<open>(indices, shell_data, output_bvals, output_bvecs)\<close>, or raises the same exception, as
  with \<open>block_size = None\<close>. Only the log of the blocks read differs.
\<close>

theorem extract_dwi_shell_block_size_irrelevant:
  fixes dwi :: "'v::zero nifti"
  assumes "1 \<le> block_size"
  shows "snd (extract_dwi_shell dwi bvals bvecs bvals_to_extract tol (Some block_size)) =
         snd (extract_dwi_shell dwi bvals bvecs bvals_to_extract tol None)"
proof -
  have eq: "map (\<lambda>i. if default_block_size (Some block_size) dwi \<noteq> 0 \<and> i < length dwi
                      then dwi ! i else 0) idx =
            map (\<lambda>i. if default_block_size None dwi \<noteq> 0 \<and> i < length dwi
                      then dwi ! i else 0) idx" for idx
    using assms by (intro map_cong) (auto simp: default_block_size_def)
  show ?thesis
    unfolding extract_dwi_shell_eq Let_def eq by simp
qed

theorem extract_dwi_shell_block_size_irrelevant_witness:
  "(1::nat) \<le> 2 \<and>
   snd (extract_dwi_shell [10, 20, 30, 40 :: real] [0, 1000, 2000, 995]
          [(0, 0, 0), (1, 0, 0), (0, 1, 0), (0, 0, 1 :: real)] [1000] 20 (Some 2)) =
   snd (extract_dwi_shell [10, 20, 30, 40 :: real] [0, 1000, 2000, 995]
          [(0, 0, 0), (1, 0, 0), (0, 1, 0), (0, 0, 1 :: real)] [1000] 20 None) \<and>
   snd (extract_dwi_shell [10, 20, 30, 40 :: real] [0, 1000, 2000, 995]
          [(0, 0, 0), (1, 0, 0), (0, 1, 0), (0, 0, 1 :: real)] [1000] 20 (Some 2)) =
   Inr ([1, 3], [20, 40], [[1000, 995]], [(1, 0, 0), (0, 0, 1)])"
proof -
  have "snd (extract_dwi_shell [10, 20, 30, 40 :: real] [0, 1000, 2000, 995]
          [(0, 0, 0), (1, 0, 0), (0, 1, 0), (0, 0, 1 :: real)] [1000] 20 (Some 2)) =
   Inr ([1, 3], [20, 40], [[1000, 995]], [(1, 0, 0), (0, 0, 1)])"
    by (simp add: extract_dwi_shell_def get_shell_indices_def np_unique_def default_block_size_def
        volume_iterator.simps slice_def bool_index_def mask_assign_def fancy_index_def
        astype_int_def upt_rec [of _ "numeral _"] Let_def)
  then show ?thesis
    using extract_dwi_shell_block_size_irrelevant [of 2 "[10, 20, 30, 40 :: real]"
        "[0, 1000, 2000, 995]" "[(0, 0, 0), (1, 0, 0), (0, 1, 0), (0, 0, 1 :: real)]" "[1000]" 20]
    by simp
qed

lemma sorted_distinct_strict: "sorted xs \<Longrightarrow> distinct xs \<Longrightarrow> sorted_wrt (<) (xs :: nat list)"
  by (simp add: strict_sorted_iff)

text \<open>
  C5: when at least one volume matches a requested b-value within the tolerance, the
  returned indices are strictly increasing and without duplicates, and are the union of
  the index sets of the shells; \<open>shell_data[..., k]\<close> is the input volume at position
  \<open>indices[k]\<close>; \<open>output_bvals\<close> is one row, the b-values at the indices cast to int;
  \<open>output_bvecs\<close> is the rows of \<open>bvecs\<close> at the indices. The image has a volume, and
  \<open>bvecs\<close> a row, for every b-value; the block size is not 0.
\<close>

theorem extract_dwi_shell_result:
  fixes dwi :: "'v::zero nifti"
  assumes "\<exists>shell \<in> set bvals_to_extract. get_shell_indices bvals shell tol \<noteq> []"
    and "length bvals \<le> length dwi" and "length bvals \<le> length bvecs"
    and "block_size \<noteq> Some 0"
  shows "\<exists>indices shell_data output_bvals output_bvecs.
     snd (extract_dwi_shell dwi bvals bvecs bvals_to_extract tol block_size) =
       Inr (indices, shell_data, output_bvals, output_bvecs) \<and>
     sorted_wrt (<) indices \<and> distinct indices \<and>
     set indices = (\<Union>shell \<in> set bvals_to_extract. set (get_shell_indices bvals shell tol)) \<and>
     (\<forall>i \<in> set indices. i < length dwi) \<and>
     length shell_data = length indices \<and>
     (\<forall>k < length indices. shell_data ! k = dwi ! (indices ! k)) \<and>
     output_bvals = [map (\<lambda>i. astype_int (bvals ! i)) indices] \<and>
     output_bvecs = map (\<lambda>i. bvecs ! i) indices"
proof -
  let ?idx = "shell_union bvals bvals_to_extract tol"
  have ne: "?idx \<noteq> []"
  proof
    assume "?idx = []"
    then have "set ?idx = {}" by simp
    with assms(1) show False
      unfolding shell_union_props(3) by auto
  qed
  have bound: "i < length dwi" if "i \<in> set ?idx" for i
    using shell_union_bound [OF that] assms(2) by simp
  have fv: "fancy_index bvecs ?idx = Inr (map (\<lambda>i. bvecs ! i) ?idx)"
    using shell_union_bound [of _ bvals bvals_to_extract tol] assms(3)
    by (fastforce simp: fancy_index_def)
  have bs: "default_block_size block_size dwi \<noteq> 0"
  proof (cases block_size)
    case None
    from ne obtain i where "i \<in> set ?idx" by (cases ?idx) auto
    from bound [OF this] None show ?thesis by (auto simp: default_block_size_def)
  next
    case (Some b)
    with assms(4) show ?thesis by (simp add: default_block_size_def)
  qed
  have sd: "map (\<lambda>i. if default_block_size block_size dwi \<noteq> 0 \<and> i < length dwi
                      then dwi ! i else 0) ?idx = map (\<lambda>i. dwi ! i) ?idx"
    using bs bound by (intro map_cong) auto
  have res: "snd (extract_dwi_shell dwi bvals bvecs bvals_to_extract tol block_size) =
     Inr (?idx, map (\<lambda>i. dwi ! i) ?idx, [map (\<lambda>i. astype_int (bvals ! i)) ?idx],
          map (\<lambda>i. bvecs ! i) ?idx)"
    unfolding extract_dwi_shell_eq Let_def sd using ne fv by simp
  have props: "sorted_wrt (<) ?idx" "distinct ?idx"
    "set ?idx = (\<Union>shell \<in> set bvals_to_extract. set (get_shell_indices bvals shell tol))"
    "\<forall>i \<in> set ?idx. i < length dwi"
    "length (map (\<lambda>i. dwi ! i) ?idx) = length ?idx"
    "\<forall>k < length ?idx. map (\<lambda>i. dwi ! i) ?idx ! k = dwi ! (?idx ! k)"
    using bound shell_union_props [of bvals bvals_to_extract tol]
    by (simp_all add: sorted_distinct_strict)
  show ?thesis
    apply (rule exI [of _ ?idx])
    apply (rule exI [of _ "map (\<lambda>i. dwi ! i) ?idx"])
    apply (rule exI [of _ "[map (\<lambda>i. astype_int (bvals ! i)) ?idx]"])
    apply (rule exI [of _ "map (\<lambda>i. bvecs ! i) ?idx"])
    using res props by blast
qed

text \<open>
  C8: \<open>extract_dwi_shell\<close> raises ValueError exactly when the union of the index sets of
  the requested shells is empty; it has then read no block of the image (the log is
  empty) and returns nothing.
\<close>

theorem extract_dwi_shell_value_error:
  fixes dwi :: "'v::zero nifti"
  shows "(snd (extract_dwi_shell dwi bvals bvecs bvals_to_extract tol block_size) = Inl ValueError)
       = ((\<Union>shell \<in> set bvals_to_extract. set (get_shell_indices bvals shell tol)) = {}) \<and>
     (snd (extract_dwi_shell dwi bvals bvecs bvals_to_extract tol block_size) = Inl ValueError
        \<longrightarrow> extract_dwi_shell dwi bvals bvecs bvals_to_extract tol block_size = ([], Inl ValueError))"
proof -
  let ?idx = "shell_union bvals bvals_to_extract tol"
  have e: "(?idx = []) = ((\<Union>shell \<in> set bvals_to_extract. set (get_shell_indices bvals shell tol)) = {})"
    unfolding shell_union_props(3) [symmetric] by simp
  have "fancy_index bvecs ?idx \<noteq> Inl ValueError"
    by (simp add: fancy_index_def)
  then have "snd (extract_dwi_shell dwi bvals bvecs bvals_to_extract tol block_size) = Inl ValueError
     \<longleftrightarrow> ?idx = []"
    unfolding extract_dwi_shell_eq Let_def by (auto split: sum.splits)
  moreover have "?idx = [] \<Longrightarrow>
     extract_dwi_shell dwi bvals bvecs bvals_to_extract tol block_size = ([], Inl ValueError)"
    unfolding extract_dwi_shell_eq Let_def by simp
  ultimately show ?thesis using e by auto
qed

theorem extract_dwi_shell_result_witness:
  "(\<exists>shell \<in> set [1000, 0]. get_shell_indices [0, 1000, 2000, 995.5] shell 20 \<noteq> []) \<and>
   length [0, 1000, 2000, 995.5 :: real] \<le> length [10, 20, 30, 40 :: real] \<and>
   Some (3::nat) \<noteq> Some 0 \<and>
   snd (extract_dwi_shell [10, 20, 30, 40 :: real] [0, 1000, 2000, 995.5]
          [(0, 0, 0), (1, 0, 0), (0, 1, 0), (0, 0, 1 :: real)] [1000, 0] 20 (Some 3)) =
   Inr ([0, 1, 3], [10, 20, 40], [[0, 1000, 995]], [(0, 0, 0), (1, 0, 0), (0, 0, 1)])"
proof -
  have h: "\<exists>shell \<in> set [1000, 0]. get_shell_indices [0, 1000, 2000, 995.5] shell 20 \<noteq> []"
    by (simp add: get_shell_indices_def upt_rec [of _ "numeral _"])
  have v: "snd (extract_dwi_shell [10, 20, 30, 40 :: real] [0, 1000, 2000, 995.5]
          [(0, 0, 0), (1, 0, 0), (0, 1, 0), (0, 0, 1 :: real)] [1000, 0] 20 (Some 3)) =
   Inr ([0, 1, 3], [10, 20, 40], [[0, 1000, 995]], [(0, 0, 0), (1, 0, 0), (0, 0, 1)])"
    by (simp add: extract_dwi_shell_def get_shell_indices_def np_unique_def default_block_size_def
        volume_iterator.simps slice_def bool_index_def mask_assign_def fancy_index_def
        astype_int_def upt_rec [of _ "numeral _"] Let_def)
  show ?thesis
    using h v extract_dwi_shell_result [OF h, of "[10, 20, 30, 40 :: real]"
        "[(0, 0, 0), (1, 0, 0), (0, 1, 0), (0, 0, 1 :: real)]" "Some 3"]
    by simp
qed

theorem extract_dwi_shell_value_error_witness:
  "(\<Union>shell \<in> set [3000, 500]. set (get_shell_indices [0, 1000, 2000, 995] shell 20)) = {} \<and>
   extract_dwi_shell [10, 20, 30, 40 :: real] [0, 1000, 2000, 995]
          [(0, 0, 0), (1, 0, 0), (0, 1, 0), (0, 0, 1 :: real)] [3000, 500] 20 (Some 3) =
     ([], Inl ValueError) \<and>
   (\<Union>shell \<in> set [2000]. set (get_shell_indices [0, 1000, 2000, 995] shell 20)) \<noteq> {} \<and>
   snd (extract_dwi_shell [10, 20, 30, 40 :: real] [0, 1000, 2000, 995]
          [(0, 0, 0), (1, 0, 0), (0, 1, 0), (0, 0, 1 :: real)] [2000] 20 (Some 3)) \<noteq> Inl ValueError"
proof -
  have h: "(\<Union>shell \<in> set [3000, 500]. set (get_shell_indices [0, 1000, 2000, 995] shell 20)) = {}"
    by (simp add: get_shell_indices_def upt_rec [of _ "numeral _"])
  have g: "(\<Union>shell \<in> set [2000]. set (get_shell_indices [0, 1000, 2000, 995] shell 20)) \<noteq> {}"
    by (simp add: get_shell_indices_def upt_rec [of _ "numeral _"])
  show ?thesis
    using h g
      extract_dwi_shell_value_error [of "[10, 20, 30, 40 :: real]" "[0, 1000, 2000, 995]"
        "[(0, 0, 0), (1, 0, 0), (0, 1, 0), (0, 0, 1 :: real)]" "[3000, 500]" 20 "Some 3"]
      extract_dwi_shell_value_error [of "[10, 20, 30, 40 :: real]" "[0, 1000, 2000, 995]"
        "[(0, 0, 0), (1, 0, 0), (0, 1, 0), (0, 0, 1 :: real)]" "[2000]" 20 "Some 3"]
    by auto
qed


section \<open>Extraction of b0 volumes\<close>

text \<open>
  The slices returned from position \<open>length pre\<close> on, relative to the whole mask
  \<open>pre @ m\<close>, when a group starts at that position.
\<close>

lemma runs_from:
  assumes "pre = [] \<or> m = [] \<or> last pre \<noteq> hd m"
  shows "(\<forall>(s, e) \<in> set (notmasked_contiguous_from (length pre) m).
            length pre \<le> s \<and> s < e \<and> e \<le> length (pre @ m) \<and>
            (\<forall>j. s \<le> j \<and> j < e \<longrightarrow> \<not> (pre @ m) ! j) \<and>
            (s = 0 \<or> (pre @ m) ! (s - 1)) \<and> (e = length (pre @ m) \<or> (pre @ m) ! e)) \<and>
         sorted_wrt (\<lambda>r r'. snd r < fst r') (notmasked_contiguous_from (length pre) m) \<and>
         (\<forall>j. length pre \<le> j \<and> j < length (pre @ m) \<and> \<not> (pre @ m) ! j \<longrightarrow>
            (\<exists>(s, e) \<in> set (notmasked_contiguous_from (length pre) m). s \<le> j \<and> j < e))"
  using assms
proof (induction "length pre" m arbitrary: pre rule: notmasked_contiguous_from.induct)
  case 1
  then show ?case by simp
next
  case (2 k m)
  define tw where "tw = takeWhile (\<lambda>x. x = k) m"
  define dw where "dw = dropWhile (\<lambda>x. x = k) m"
  define n where "n = Suc (length tw)"
  define pre' where "pre' = pre @ k # tw"
  define rs where "rs = notmasked_contiguous_from (length pre') dw"
  have split: "pre @ k # m = pre' @ dw" "length pre' = length pre + n" "m = tw @ dw"
    by (simp_all add: pre'_def tw_def dw_def n_def)
  have tw_all: "\<forall>x \<in> set tw. x = k"
    unfolding tw_def by (auto dest: set_takeWhileD)
  have last_pre': "last pre' = k"
    using tw_all by (cases "tw = []") (auto simp: pre'_def)
  have hd_dw: "dw \<noteq> [] \<Longrightarrow> hd dw \<noteq> k"
    unfolding dw_def using hd_dropWhile [of "\<lambda>x. x = k" m] by simp
  have bnd: "pre' = [] \<or> dw = [] \<or> last pre' \<noteq> hd dw"
    using last_pre' hd_dw by auto
  have IH: "(\<forall>(s, e) \<in> set rs.
            length pre' \<le> s \<and> s < e \<and> e \<le> length (pre' @ dw) \<and>
            (\<forall>j. s \<le> j \<and> j < e \<longrightarrow> \<not> (pre' @ dw) ! j) \<and>
            (s = 0 \<or> (pre' @ dw) ! (s - 1)) \<and> (e = length (pre' @ dw) \<or> (pre' @ dw) ! e)) \<and>
         sorted_wrt (\<lambda>r r'. snd r < fst r') rs \<and>
         (\<forall>j. length pre' \<le> j \<and> j < length (pre' @ dw) \<and> \<not> (pre' @ dw) ! j \<longrightarrow>
            (\<exists>(s, e) \<in> set rs. s \<le> j \<and> j < e))"
    unfolding rs_def
    using "2.hyps" [of n pre'] bnd split(2) by (simp add: n_def tw_def dw_def)
  have unfold: "notmasked_contiguous_from (length pre) (k # m) =
      (if \<not> k then [(length pre, length pre + n)] else []) @ rs"
    by (simp add: rs_def n_def tw_def dw_def split(2) Let_def add.commute)
  have group: "(pre' @ dw) ! j = k" if "length pre \<le> j" "j < length pre'" for j
  proof -
    have "(pre' @ dw) ! j = pre' ! j" using that by (simp add: nth_append)
    also have "\<dots> = (k # tw) ! (j - length pre)"
      using that by (simp add: pre'_def nth_append)
    also have "\<dots> = k"
      using that tw_all split(2) by (cases "j - length pre") (auto simp: n_def)
    finally show ?thesis .
  qed
  have before: "length pre = 0 \<or> (pre' @ dw) ! (length pre - 1) \<noteq> k"
  proof (cases "pre = []")
    case False
    then have "(pre' @ dw) ! (length pre - 1) = last pre"
      by (simp add: pre'_def nth_append last_conv_nth)
    with "2.prems" False show ?thesis by simp
  qed simp
  have after: "length pre' = length (pre' @ dw) \<or> (pre' @ dw) ! (length pre') \<noteq> k"
    using hd_dw by (cases dw) (auto simp: nth_append)
  have starts: "length pre' < s" if "(s, e) \<in> set rs" "\<not> k" for s e
  proof -
    from IH that(1) have a: "length pre' \<le> s" "s < e" "e \<le> length (pre' @ dw)"
      "\<not> (pre' @ dw) ! s" by auto
    show ?thesis
    proof (rule ccontr)
      assume "\<not> length pre' < s"
      with a(1) have s: "s = length pre'" by simp
      with a(2,3) after have "(pre' @ dw) ! s \<noteq> k" by auto
      with a(4) that(2) show False by simp
    qed
  qed
  show ?case
    unfolding unfold split(1)
  proof (intro conjI)
    show "\<forall>(s, e) \<in> set ((if \<not> k then [(length pre, length pre + n)] else []) @ rs).
            length pre \<le> s \<and> s < e \<and> e \<le> length (pre' @ dw) \<and>
            (\<forall>j. s \<le> j \<and> j < e \<longrightarrow> \<not> (pre' @ dw) ! j) \<and>
            (s = 0 \<or> (pre' @ dw) ! (s - 1)) \<and> (e = length (pre' @ dw) \<or> (pre' @ dw) ! e)"
    proof (clarify)
      fix s e assume se: "(s, e) \<in> set ((if \<not> k then [(length pre, length pre + n)] else []) @ rs)"
      show "length pre \<le> s \<and> s < e \<and> e \<le> length (pre' @ dw) \<and>
            (\<forall>j. s \<le> j \<and> j < e \<longrightarrow> \<not> (pre' @ dw) ! j) \<and>
            (s = 0 \<or> (pre' @ dw) ! (s - 1)) \<and> (e = length (pre' @ dw) \<or> (pre' @ dw) ! e)"
      proof (cases "(s, e) \<in> set rs")
        case True
        with IH split(2) show ?thesis by fastforce
      next
        case False
        with se have k: "\<not> k" and s: "s = length pre" and e: "e = length pre'"
          using split(2) by (auto split: if_splits)
        show ?thesis
          using k s e group before after split(2) by (auto simp: n_def)
      qed
    qed
  next
    show "sorted_wrt (\<lambda>r r'. snd r < fst r') ((if \<not> k then [(length pre, length pre + n)] else []) @ rs)"
      using IH starts split(2) by (auto simp: sorted_wrt_append)
  next
    show "\<forall>j. length pre \<le> j \<and> j < length (pre' @ dw) \<and> \<not> (pre' @ dw) ! j \<longrightarrow>
        (\<exists>(s, e) \<in> set ((if \<not> k then [(length pre, length pre + n)] else []) @ rs). s \<le> j \<and> j < e)"
    proof (intro allI impI)
      fix j assume j: "length pre \<le> j \<and> j < length (pre' @ dw) \<and> \<not> (pre' @ dw) ! j"
      show "\<exists>(s, e) \<in> set ((if \<not> k then [(length pre, length pre + n)] else []) @ rs). s \<le> j \<and> j < e"
      proof (cases "j < length pre'")
        case True
        with j group [of j] have "\<not> k" by auto
        with True j split(2) show ?thesis by auto
      next
        case False
        with j IH have "\<exists>(s, e) \<in> set rs. s \<le> j \<and> j < e" by auto
        then show ?thesis by auto
      qed
    qed
  qed
qed


lemma np_where_set: "set (np_where b) = {i. i < length b \<and> b ! i}"
  by (auto simp: np_where_def)

lemma np_where_sorted: "sorted (np_where b)" "distinct (np_where b)"
  by (simp_all add: np_where_def sorted_wrt_filter)

lemma b0_clusters_maximal: "maximal_runs b0_mask (b0_clusters_of b0_mask)"
proof -
  let ?rs = "notmasked_contiguous_from 0 (map Not b0_mask)"
  have R: "(\<forall>(s, e) \<in> set ?rs.
            0 \<le> s \<and> s < e \<and> e \<le> length (map Not b0_mask) \<and>
            (\<forall>j. s \<le> j \<and> j < e \<longrightarrow> \<not> (map Not b0_mask) ! j) \<and>
            (s = 0 \<or> (map Not b0_mask) ! (s - 1)) \<and>
            (e = length (map Not b0_mask) \<or> (map Not b0_mask) ! e)) \<and>
         sorted_wrt (\<lambda>r r'. snd r < fst r') ?rs \<and>
         (\<forall>j. 0 \<le> j \<and> j < length (map Not b0_mask) \<and> \<not> (map Not b0_mask) ! j \<longrightarrow>
            (\<exists>(s, e) \<in> set ?rs. s \<le> j \<and> j < e))"
    using runs_from [of "[]" "map Not b0_mask"] by simp
  have 1: "maximal_run b0_mask r" if "r \<in> set ?rs" for r
  proof -
    obtain s e where r: "r = (s, e)" by (cases r)
    with R that have p: "s < e" "e \<le> length b0_mask"
      "\<forall>j. s \<le> j \<and> j < e \<longrightarrow> \<not> (map Not b0_mask) ! j"
      "s = 0 \<or> (map Not b0_mask) ! (s - 1)"
      "e = length b0_mask \<or> (map Not b0_mask) ! e" by auto
    have a: "\<forall>i \<in> {s..<e}. b0_mask ! i"
      using p(2,3) by auto
    have b: "s = 0 \<or> \<not> b0_mask ! (s - 1)"
      using p(1,2,4) by (cases "s = 0") auto
    have c: "e = length b0_mask \<or> \<not> b0_mask ! e"
      using p(2,5) by (cases "e = length b0_mask") auto
    show ?thesis
      using p(1,2) a b c by (simp add: maximal_run_def r)
  qed
  have 3: "\<exists>r \<in> set ?rs. fst r \<le> i \<and> i < snd r" if "i \<in> set (np_where b0_mask)" for i
  proof -
    from that have "i < length b0_mask" "b0_mask ! i" by (auto simp: np_where_set)
    then have "\<exists>(s, e) \<in> set ?rs. s \<le> i \<and> i < e"
      using R by auto
    then obtain s e where "(s, e) \<in> set ?rs" "s \<le> i" "i < e" by auto
    then show ?thesis by (intro bexI [of _ "(s, e)"]) auto
  qed
  have 2: "sorted_wrt (\<lambda>r r'. snd r < fst r') ?rs"
    using R by (elim conjE)
  show ?thesis
    unfolding maximal_runs_def b0_clusters_of_def using 1 2 3 by (intro conjI ballI)
qed


lemma run_indices_mem:
  "i \<in> set (run_indices rs) \<longleftrightarrow> (\<exists>r \<in> set rs. fst r \<le> i \<and> i < snd r)"
  by (induction rs) (auto simp: run_indices_def)

lemma run_indices_Cons: "run_indices ((s, e) # rs) = [s..<e] @ run_indices rs"
  by (simp add: run_indices_def)

lemma run_indices_sorted:
  "sorted_wrt (\<lambda>r r'. snd r < fst r') rs \<Longrightarrow> sorted (run_indices rs) \<and> distinct (run_indices rs)"
proof (induction rs)
  case Nil
  then show ?case by (simp add: run_indices_def)
next
  case (Cons r rs)
  obtain s e where r: "r = (s, e)" by (cases r)
  have later: "x < y" if "x \<in> set [s..<e]" "y \<in> set (run_indices rs)" for x y
  proof -
    from that(2) obtain r' where r': "r' \<in> set rs" "fst r' \<le> y"
      unfolding run_indices_mem by blast
    from Cons.prems r' have "e < fst r'" by (simp add: r)
    with that(1) r'(2) show ?thesis by simp
  qed
  from Cons have IH: "sorted (run_indices rs)" "distinct (run_indices rs)" by simp_all
  have 1: "sorted ([s..<e] @ run_indices rs)"
    unfolding sorted_append using IH(1) later by (auto intro: less_imp_le)
  have 2: "distinct ([s..<e] @ run_indices rs)"
    unfolding distinct_append using IH(2) later by fastforce
  show ?case
    unfolding r run_indices_Cons using 1 2 by simp
qed

lemma maximal_runD:
  assumes "maximal_runs b0_mask rs" "r \<in> set rs"
  shows "fst r < snd r" "snd r \<le> length b0_mask"
    "\<And>i. fst r \<le> i \<Longrightarrow> i < snd r \<Longrightarrow> b0_mask ! i"
proof -
  obtain s e where r: "r = (s, e)" by (cases r)
  from assms have m: "maximal_run b0_mask (s, e)"
    unfolding maximal_runs_def r by blast
  show "fst r < snd r" "snd r \<le> length b0_mask"
    using m by (simp_all add: maximal_run_def r)
  show "b0_mask ! i" if "fst r \<le> i" "i < snd r" for i
    using m that by (simp add: maximal_run_def r)
qed

lemma run_indices_np_where:
  assumes "maximal_runs b0_mask rs"
  shows "run_indices rs = np_where b0_mask"
proof (rule sorted_distinct_set_unique)
  show "sorted (run_indices rs)" "distinct (run_indices rs)"
    using assms run_indices_sorted by (simp_all add: maximal_runs_def)
  show "sorted (np_where b0_mask)" "distinct (np_where b0_mask)"
    by (rule np_where_sorted)+
  show "set (run_indices rs) = set (np_where b0_mask)"
  proof (intro equalityI subsetI)
    fix i assume "i \<in> set (run_indices rs)"
    then obtain r where r: "r \<in> set rs" "fst r \<le> i" "i < snd r"
      unfolding run_indices_mem by blast
    from maximal_runD [OF assms r(1)] r(2,3) have "i < length b0_mask" "b0_mask ! i"
      by simp_all
    then show "i \<in> set (np_where b0_mask)"
      by (simp add: np_where_set)
  next
    fix i assume "i \<in> set (np_where b0_mask)"
    with assms have "\<exists>r \<in> set rs. fst r \<le> i \<and> i < snd r"
      unfolding maximal_runs_def by blast
    then show "i \<in> set (run_indices rs)"
      unfolding run_indices_mem .
  qed
qed

lemma slice_append:
  "s \<le> m \<Longrightarrow> m \<le> e \<Longrightarrow> slice xs s m @ slice xs m e = slice xs s e"
proof -
  assume a: "s \<le> m" "m \<le> e"
  have "take (e - s) (drop s xs) = take ((m - s) + (e - m)) (drop s xs)"
    using a by simp
  also have "\<dots> = take (m - s) (drop s xs) @ take (e - m) (drop (m - s) (drop s xs))"
    by (rule take_add)
  finally show ?thesis using a by (simp add: slice_def)
qed

lemma slice_empty: "e \<le> s \<Longrightarrow> slice xs s e = []"
  by (simp add: slice_def)

lemma volume_iterator_step:
  "bs \<noteq> 0 \<Longrightarrow> s < e \<Longrightarrow>
   volume_iterator img bs s e =
     ([s..<min (s + bs) e], slice img s (min (s + bs) e)) # volume_iterator img bs (min (s + bs) e) e"
  by (simp add: volume_iterator.simps [of img bs s e] Let_def)

lemma volume_iterator_done: "bs = 0 \<or> e \<le> s \<Longrightarrow> volume_iterator img bs s e = []"
  by (simp add: volume_iterator.simps [of img bs s e])

lemma fold_blocks_sum:
  fixes img :: "'v::real_vector list"
  shows "bs \<noteq> 0 \<Longrightarrow>
    fold (\<lambda>(vi, data) acc. acc + sum_list data) (volume_iterator img bs s e) acc =
    acc + sum_list (slice img s e)"
proof (induction img bs s e arbitrary: acc rule: volume_iterator.induct)
  case (1 img bs s e)
  show ?case
  proof (cases "e \<le> s")
    case True
    then show ?thesis by (simp add: volume_iterator_done slice_empty)
  next
    case False
    define nxt where "nxt = min (s + bs) e"
    have nxt: "s \<le> nxt" "nxt \<le> e" using False by (simp_all add: nxt_def)
    have c: "\<not> (bs = 0 \<or> e \<le> s)" using False "1.prems" by simp
    have IH: "fold (\<lambda>(vi, data) acc. acc + sum_list data) (volume_iterator img bs nxt e)
          (acc + sum_list (slice img s nxt)) =
        (acc + sum_list (slice img s nxt)) + sum_list (slice img nxt e)"
      using "1.IH" [OF c nxt_def "1.prems"] .
    have "sum_list (slice img s e) = sum_list (slice img s nxt) + sum_list (slice img nxt e)"
      using slice_append [OF nxt, of img] by (metis sum_list_append)
    with IH show ?thesis
      using False "1.prems" by (simp add: volume_iterator_step nxt_def [symmetric] add.assoc)
  qed
qed

lemma cluster_blocks_mean:
  fixes img :: "'v::real_vector list"
  shows "bs \<noteq> 0 \<Longrightarrow> idx < length out \<Longrightarrow>
    cluster_blocks MEAN indices idx (volume_iterator img bs s e) out =
    Inr (out[idx := out ! idx + sum_list (slice img s e)])"
proof (induction img bs s e arbitrary: out rule: volume_iterator.induct)
  case (1 img bs s e)
  show ?case
  proof (cases "e \<le> s")
    case True
    then show ?thesis by (simp add: volume_iterator_done slice_empty)
  next
    case False
    define nxt where "nxt = min (s + bs) e"
    define out1 where "out1 = out[idx := out ! idx + sum_list (slice img s nxt)]"
    have nxt: "s \<le> nxt" "nxt \<le> e" using False by (simp_all add: nxt_def)
    have c: "\<not> (bs = 0 \<or> e \<le> s)" using False "1.prems" by simp
    have len: "idx < length out1" using "1.prems" by (simp add: out1_def)
    have IH: "cluster_blocks MEAN indices idx (volume_iterator img bs nxt e) out1 =
        Inr (out1[idx := out1 ! idx + sum_list (slice img nxt e)])"
      using "1.IH" [OF c nxt_def "1.prems"(1) len] .
    have app: "sum_list (slice img s e) = sum_list (slice img s nxt) + sum_list (slice img nxt e)"
      using slice_append [OF nxt, of img] by (metis sum_list_append)
    have "out1[idx := out1 ! idx + sum_list (slice img nxt e)] =
          out[idx := out ! idx + sum_list (slice img s e)]"
      using "1.prems"(2) by (simp add: out1_def app add.assoc)
    with IH show ?thesis
      using False "1.prems" by (simp add: volume_iterator_step nxt_def [symmetric] out1_def)
  qed
qed

lemma filter_range_subset:
  assumes "sorted xs" "distinct xs" "\<forall>i. a \<le> i \<and> i < b \<longrightarrow> i \<in> set xs"
  shows "filter (\<lambda>i. i \<in> set [a..<b]) xs = [a..<b]"
proof (rule sorted_distinct_set_unique)
  show "sorted (filter (\<lambda>i. i \<in> set [a..<b]) xs)"
    using assms(1) by (rule sorted_wrt_filter)
  show "distinct (filter (\<lambda>i. i \<in> set [a..<b]) xs)"
    using assms(2) by simp
  show "set (filter (\<lambda>i. i \<in> set [a..<b]) xs) = set [a..<b]"
    using assms(3) by auto
qed simp_all

lemma block_assign_all:
  assumes "sorted indices" "distinct indices" "stop \<le> length img"
    "length S = length indices" "\<forall>i. start \<le> i \<and> i < stop \<longrightarrow> i \<in> set indices"
  shows "mask_assign S (map (\<lambda>i. i \<in> set [start..<stop]) indices) (slice img start stop) =
     Inr (map (\<lambda>(s, i). if start \<le> i \<and> i < stop then img ! i else s) (zip S indices))"
proof -
  let ?P = "\<lambda>i. i \<in> set [start..<stop]"
  have d: "slice img start stop = map ((!) img) (filter ?P indices)"
    unfolding filter_range_subset [OF assms(1,2,5)] using assms(3) by (rule slice_map_nth)
  have "mask_assign S (map ?P indices) (map ((!) img) (filter ?P indices)) =
     Inr (map (\<lambda>(s, i). if ?P i then img ! i else s) (zip S indices))"
    using assms(4) by (simp add: mask_assign_def length_filter_id_map mask_put_map del: set_upt)
  then show ?thesis unfolding d by simp
qed

lemma cluster_blocks_all:
  fixes img :: "'v::real_vector list"
  assumes "sorted indices" "distinct indices"
  shows "e \<le> length img \<Longrightarrow> length out = length indices \<Longrightarrow>
    \<forall>i. s \<le> i \<and> i < e \<longrightarrow> i \<in> set indices \<Longrightarrow>
    cluster_blocks ALL_B0 indices idx (volume_iterator img bs s e) out =
    Inr (map (\<lambda>(x, i). if bs \<noteq> 0 \<and> s \<le> i \<and> i < e then img ! i else x) (zip out indices))"
proof (induction img bs s e arbitrary: out rule: volume_iterator.induct)
  case (1 img bs s e)
  show ?case
  proof (cases "bs = 0 \<or> e \<le> s")
    case True
    have "map (\<lambda>(x, i). if bs \<noteq> 0 \<and> s \<le> i \<and> i < e then img ! i else x) (zip out indices) = out"
      using True "1.prems"(2) by (auto simp: list_eq_iff_nth_eq)
    with True show ?thesis by (simp add: volume_iterator_done)
  next
    case False
    define nxt where "nxt = min (s + bs) e"
    define out1 where "out1 = map (\<lambda>(x, i). if s \<le> i \<and> i < nxt then img ! i else x) (zip out indices)"
    have nxt: "s < nxt" "nxt \<le> e" "nxt \<le> length img"
      using False "1.prems"(1) by (auto simp: nxt_def)
    have sub: "\<forall>i. s \<le> i \<and> i < nxt \<longrightarrow> i \<in> set indices"
      using "1.prems"(3) nxt(2) by auto
    have sub2: "\<forall>i. nxt \<le> i \<and> i < e \<longrightarrow> i \<in> set indices"
      using "1.prems"(3) nxt(1) by auto
    have a: "mask_assign out (map (\<lambda>i. i \<in> set [s..<nxt]) indices) (slice img s nxt) = Inr out1"
      unfolding out1_def by (rule block_assign_all [OF assms nxt(3) "1.prems"(2) sub])
    have len: "length out1 = length indices"
      using "1.prems"(2) by (simp add: out1_def)
    have IH: "cluster_blocks ALL_B0 indices idx (volume_iterator img bs nxt e) out1 =
       Inr (map (\<lambda>(x, i). if bs \<noteq> 0 \<and> nxt \<le> i \<and> i < e then img ! i else x) (zip out1 indices))"
      using "1.IH" [OF False nxt_def "1.prems"(1) len sub2] .
    have fin: "map (\<lambda>(x, i). if bs \<noteq> 0 \<and> nxt \<le> i \<and> i < e then img ! i else x) (zip out1 indices)
       = map (\<lambda>(x, i). if bs \<noteq> 0 \<and> s \<le> i \<and> i < e then img ! i else x) (zip out indices)"
      using False nxt "1.prems"(2) by (auto simp: list_eq_iff_nth_eq out1_def)
    have it: "volume_iterator img bs s e =
        ([s..<nxt], slice img s nxt) # volume_iterator img bs nxt e"
      using False by (simp add: volume_iterator_step nxt_def)
    show ?thesis
      unfolding it using a IH fin by (simp del: set_upt)
  qed
qed

lemma slice_single: "s < length xs \<Longrightarrow> slice xs s (Suc s) = [xs ! s]"
  by (simp add: slice_def hd_drop_conv_nth take_Suc)

lemma cluster_loop_first:
  fixes dwi :: "'v::real_vector list"
  shows "\<forall>r \<in> set cs. fst r < length dwi \<Longrightarrow> n + length cs \<le> length out \<Longrightarrow>
    \<exists>out'. cluster_loop dwi bs FIRST indices (List.enumerate n cs) out = Inr out' \<and>
      length out' = length out \<and>
      (\<forall>j < length out. out' ! j =
         (if n \<le> j \<and> j < n + length cs then dwi ! fst (cs ! (j - n)) else out ! j))"
proof (induction cs arbitrary: n out)
  case Nil
  then show ?case by auto
next
  case (Cons c cs)
  obtain s e where c: "c = (s, e)" by (cases c)
  define out1 where "out1 = out[n := dwi ! s]"
  have s: "s < length dwi" using Cons.prems(1) by (simp add: c)
  have n: "n < length out" using Cons.prems(2) by simp
  have step: "cluster_loop dwi bs FIRST indices (List.enumerate n (c # cs)) out =
      cluster_loop dwi bs FIRST indices (List.enumerate (Suc n) cs) out1"
    using s n by (simp add: c slice_single out1_def)
  have "\<forall>r \<in> set cs. fst r < length dwi" "Suc n + length cs \<le> length out1"
    using Cons.prems by (simp_all add: out1_def)
  from Cons.IH [OF this] obtain out' where o:
    "cluster_loop dwi bs FIRST indices (List.enumerate (Suc n) cs) out1 = Inr out'"
    "length out' = length out1"
    "\<forall>j < length out1. out' ! j =
       (if Suc n \<le> j \<and> j < Suc n + length cs then dwi ! fst (cs ! (j - Suc n)) else out1 ! j)"
    by blast
  have "out' ! j = (if n \<le> j \<and> j < n + length (c # cs) then dwi ! fst ((c # cs) ! (j - n)) else out ! j)"
    if "j < length out" for j
  proof (cases "j = n")
    case True
    with o(3) that show ?thesis by (simp add: out1_def c)
  next
    case False
    with o(3) that show ?thesis by (auto simp: out1_def nth_Cons' Suc_diff_Suc)
  qed
  with o(1,2) step show ?case by (simp add: out1_def)
qed

lemma cluster_loop_mean:
  fixes dwi :: "'v::real_vector list"
  shows "bs \<noteq> 0 \<Longrightarrow> \<forall>r \<in> set cs. fst r < snd r \<Longrightarrow> n + length cs \<le> length out \<Longrightarrow>
    \<exists>out'. cluster_loop dwi bs MEAN indices (List.enumerate n cs) out = Inr out' \<and>
      length out' = length out \<and>
      (\<forall>j < length out. out' ! j =
         (if n \<le> j \<and> j < n + length cs
          then (out ! j + sum_list (slice dwi (fst (cs ! (j - n))) (snd (cs ! (j - n)))))
                 /\<^sub>R real (snd (cs ! (j - n)) - fst (cs ! (j - n)))
          else out ! j))"
proof (induction cs arbitrary: n out)
  case Nil
  then show ?case by auto
next
  case (Cons c cs)
  obtain s e where c: "c = (s, e)" by (cases c)
  define out0 where "out0 = out[n := out ! n + sum_list (slice dwi s e)]"
  define out1 where "out1 = out0[n := out0 ! n /\<^sub>R real (e - s)]"
  have se: "s < e" using Cons.prems(2) by (simp add: c)
  have n: "n < length out" using Cons.prems(3) by simp
  have blocks: "cluster_blocks MEAN indices n (volume_iterator dwi bs s e) out = Inr out0"
    unfolding out0_def using Cons.prems(1) n by (rule cluster_blocks_mean)
  have step: "cluster_loop dwi bs MEAN indices (List.enumerate n (c # cs)) out =
      cluster_loop dwi bs MEAN indices (List.enumerate (Suc n) cs) out1"
    using se n blocks by (simp add: c out1_def out0_def)
  have "\<forall>r \<in> set cs. fst r < snd r" "Suc n + length cs \<le> length out1"
    using Cons.prems by (simp_all add: out1_def out0_def)
  from Cons.IH [OF Cons.prems(1) this] obtain out' where o:
    "cluster_loop dwi bs MEAN indices (List.enumerate (Suc n) cs) out1 = Inr out'"
    "length out' = length out1"
    "\<forall>j < length out1. out' ! j =
       (if Suc n \<le> j \<and> j < Suc n + length cs
        then (out1 ! j + sum_list (slice dwi (fst (cs ! (j - Suc n))) (snd (cs ! (j - Suc n)))))
                 /\<^sub>R real (snd (cs ! (j - Suc n)) - fst (cs ! (j - Suc n)))
        else out1 ! j)"
    by blast
  have "out' ! j = (if n \<le> j \<and> j < n + length (c # cs)
          then (out ! j + sum_list (slice dwi (fst ((c # cs) ! (j - n))) (snd ((c # cs) ! (j - n)))))
                 /\<^sub>R real (snd ((c # cs) ! (j - n)) - fst ((c # cs) ! (j - n)))
          else out ! j)"
    if "j < length out" for j
  proof (cases "j = n")
    case True
    with o(3) that show ?thesis by (simp add: out1_def out0_def c)
  next
    case False
    with o(3) that show ?thesis by (auto simp: out1_def out0_def nth_Cons' Suc_diff_Suc)
  qed
  with o(1,2) step show ?case by (simp add: out1_def out0_def)
qed

lemma cluster_loop_all:
  fixes dwi :: "'v::real_vector list"
  assumes "sorted indices" "distinct indices"
  shows "\<forall>r \<in> set cs. snd r \<le> length dwi \<and> (\<forall>i. fst r \<le> i \<and> i < snd r \<longrightarrow> i \<in> set indices) \<Longrightarrow>
    length out = length indices \<Longrightarrow>
    cluster_loop dwi bs ALL_B0 indices (List.enumerate n cs) out =
      Inr (map (\<lambda>(x, i). if bs \<noteq> 0 \<and> i \<in> set (run_indices cs) then dwi ! i else x)
             (zip out indices))"
proof (induction cs arbitrary: n out)
  case Nil
  have "map (\<lambda>(x, i). x) (zip out indices) = out"
    using Nil(2) by (auto simp: list_eq_iff_nth_eq)
  then show ?case by (simp add: run_indices_def)
next
  case (Cons c cs)
  obtain s e where c: "c = (s, e)" by (cases c)
  define out1 where
    "out1 = map (\<lambda>(x, i). if bs \<noteq> 0 \<and> s \<le> i \<and> i < e then dwi ! i else x) (zip out indices)"
  have p: "e \<le> length dwi" "\<forall>i. s \<le> i \<and> i < e \<longrightarrow> i \<in> set indices"
    using Cons.prems(1) by (simp_all add: c)
  have blocks: "cluster_blocks ALL_B0 indices n (volume_iterator dwi bs s e) out = Inr out1"
    unfolding out1_def by (rule cluster_blocks_all [OF assms p(1) Cons.prems(2) p(2)])
  have len: "length out1 = length indices"
    using Cons.prems(2) by (simp add: out1_def)
  have step: "cluster_loop dwi bs ALL_B0 indices (List.enumerate n (c # cs)) out =
      cluster_loop dwi bs ALL_B0 indices (List.enumerate (Suc n) cs) out1"
    using blocks by (simp add: c)
  have rest: "\<forall>r \<in> set cs. snd r \<le> length dwi \<and> (\<forall>i. fst r \<le> i \<and> i < snd r \<longrightarrow> i \<in> set indices)"
    using Cons.prems(1) by simp
  have fin: "map (\<lambda>(x, i). if bs \<noteq> 0 \<and> i \<in> set (run_indices cs) then dwi ! i else x) (zip out1 indices)
     = map (\<lambda>(x, i). if bs \<noteq> 0 \<and> i \<in> set (run_indices (c # cs)) then dwi ! i else x) (zip out indices)"
    using Cons.prems(2) by (auto simp: list_eq_iff_nth_eq out1_def c run_indices_Cons)
  show ?case
    unfolding step Cons.IH [OF rest len] fin ..
qed

lemma sum_list_slice:
  fixes xs :: "'v::real_vector list"
  shows "e \<le> length xs \<Longrightarrow> sum_list (slice xs s e) = (\<Sum>i = s..<e. xs ! i)"
  by (simp add: slice_map_nth interv_sum_list_conv_sum_set_nat)

lemma sum_clusters_eq:
  fixes dwi :: "'v::real_vector list"
  shows "bs \<noteq> 0 \<Longrightarrow> \<forall>r \<in> set cs. snd r \<le> length dwi \<Longrightarrow>
    sum_clusters dwi bs cs acc = acc + sum_list (map (\<lambda>i. dwi ! i) (run_indices cs))"
proof (induction cs arbitrary: acc)
  case Nil
  then show ?case by (simp add: run_indices_def)
next
  case (Cons c cs)
  obtain s e where c: "c = (s, e)" by (cases c)
  have e: "e \<le> length dwi" using Cons.prems(2) by (simp add: c)
  have "sum_list (slice dwi s e) = sum_list (map (\<lambda>i. dwi ! i) [s..<e])"
    using e by (simp add: slice_map_nth)
  then show ?case
    using Cons by (simp add: c fold_blocks_sum run_indices_Cons add.assoc)
qed

lemma some_true:
  assumes "True \<in> set b0_mask"
  shows "np_where b0_mask \<noteq> []"
proof -
  from assms obtain i where "i < length b0_mask" "b0_mask ! i"
    by (auto simp: in_set_conv_nth)
  then have "i \<in> set (np_where b0_mask)" by (simp add: np_where_set)
  then show ?thesis by auto
qed

lemma block_size_ok:
  assumes "True \<in> set b0_mask" "length b0_mask \<le> length dwi" "block_size \<noteq> Some 0"
  shows "default_block_size block_size dwi \<noteq> 0"
  using assms by (cases block_size) (auto simp: default_block_size_def)

text \<open>
  C2: with \<open>extract_in_cluster = False\<close>, a mask with at least one True entry and no
  more entries than the image has volumes, and a block size other than 0: FIRST
  returns the volume at the
  smallest True index; ALL returns the volumes at the True indices, in increasing
  order; MEAN returns the sum of the volumes at the True indices divided by their
  number.
\<close>

theorem extract_b0_strategies:
  fixes dwi :: "'v::real_vector nifti"
  assumes "True \<in> set b0_mask" and "length b0_mask \<le> length dwi" and "block_size \<noteq> Some 0"
  shows "extract_b0 dwi b0_mask False FIRST block_size =
           Inr (Vol3 (dwi ! Min {i. i < length b0_mask \<and> b0_mask ! i})) \<and>
         extract_b0 dwi b0_mask False ALL_B0 block_size =
           Inr (Vol4 (map (\<lambda>i. dwi ! i) (filter (\<lambda>i. b0_mask ! i) [0..<length b0_mask]))) \<and>
         extract_b0 dwi b0_mask False MEAN block_size =
           Inr (Vol3 ((\<Sum>i | i < length b0_mask \<and> b0_mask ! i. dwi ! i)
                        /\<^sub>R real (card {i. i < length b0_mask \<and> b0_mask ! i})))"
proof (intro conjI)
  let ?idx = "np_where b0_mask"
  let ?cs = "b0_clusters_of b0_mask"
  let ?bs = "default_block_size block_size dwi"
  have ne: "?idx \<noteq> []" using assms(1) by (rule some_true)
  have bs: "?bs \<noteq> 0" using assms by (rule block_size_ok)
  have runs: "maximal_runs b0_mask ?cs" by (rule b0_clusters_maximal)
  have ri: "run_indices ?cs = ?idx" using runs by (rule run_indices_np_where)
  have S: "set ?idx = {i. i < length b0_mask \<and> b0_mask ! i}" by (rule np_where_set)
  show "extract_b0 dwi b0_mask False FIRST block_size =
           Inr (Vol3 (dwi ! Min {i. i < length b0_mask \<and> b0_mask ! i}))"
  proof -
    have "Min (set ?idx) \<in> set ?idx" using ne by (intro Min_in) simp_all
    then have "Min (set ?idx) < length dwi" using assms(2) by (simp add: S)
    then show ?thesis
      using ne by (simp add: extract_b0_def Let_def slice_single squeeze_def S [symmetric])
  qed
  show "extract_b0 dwi b0_mask False ALL_B0 block_size =
           Inr (Vol4 (map (\<lambda>i. dwi ! i) (filter (\<lambda>i. b0_mask ! i) [0..<length b0_mask])))"
  proof -
    have pre: "\<forall>r \<in> set ?cs. snd r \<le> length dwi \<and> (\<forall>i. fst r \<le> i \<and> i < snd r \<longrightarrow> i \<in> set ?idx)"
      using maximal_runD [OF runs] assms(2) by (fastforce simp: np_where_set)
    have "cluster_loop dwi ?bs ALL_B0 ?idx (List.enumerate 0 ?cs) (replicate (length ?idx) 0) =
      Inr (map (\<lambda>(x, i). if ?bs \<noteq> 0 \<and> i \<in> set (run_indices ?cs) then dwi ! i else x)
             (zip (replicate (length ?idx) 0) ?idx))"
      by (rule cluster_loop_all [OF np_where_sorted pre]) simp
    also have "map (\<lambda>(x, i). if ?bs \<noteq> 0 \<and> i \<in> set (run_indices ?cs) then dwi ! i else x)
             (zip (replicate (length ?idx) 0) ?idx) = map (\<lambda>i. dwi ! i) ?idx"
      using bs by (auto simp: list_eq_iff_nth_eq ri)
    finally show ?thesis
      by (simp add: extract_b0_def Let_def np_where_def [symmetric])
  qed
  show "extract_b0 dwi b0_mask False MEAN block_size =
           Inr (Vol3 ((\<Sum>i | i < length b0_mask \<and> b0_mask ! i. dwi ! i)
                        /\<^sub>R real (card {i. i < length b0_mask \<and> b0_mask ! i})))"
  proof -
    have pre: "\<forall>r \<in> set ?cs. snd r \<le> length dwi"
      using maximal_runD(2) [OF runs] assms(2) by fastforce
    have "sum_clusters dwi ?bs ?cs 0 = sum_list (map (\<lambda>i. dwi ! i) ?idx)"
      using sum_clusters_eq [OF bs pre, of 0] by (simp add: ri)
    also have "\<dots> = (\<Sum>i | i < length b0_mask \<and> b0_mask ! i. dwi ! i)"
      using np_where_sorted(2) [of b0_mask] by (simp add: sum_list_distinct_conv_sum_set S)
    finally have sum: "sum_clusters dwi ?bs ?cs 0 = (\<Sum>i | i < length b0_mask \<and> b0_mask ! i. dwi ! i)" .
    have card: "length ?idx = card {i. i < length b0_mask \<and> b0_mask ! i}"
      using distinct_card [OF np_where_sorted(2), of b0_mask] by (simp add: S)
    show ?thesis
      using ne by (simp add: extract_b0_def Let_def sum card [symmetric])
  qed
qed

theorem extract_b0_strategies_witness:
  "True \<in> set [False, True, False, True, True] \<and>
   length [False, True, False, True, True] \<le> length [10, 20, 30, 40, 50 :: real] \<and>
   extract_b0 [10, 20, 30, 40, 50 :: real] [False, True, False, True, True] False FIRST (Some 2)
     = Inr (Vol3 20) \<and>
   extract_b0 [10, 20, 30, 40, 50 :: real] [False, True, False, True, True] False ALL_B0 (Some 2)
     = Inr (Vol4 [20, 40, 50]) \<and>
   extract_b0 [10, 20, 30, 40, 50 :: real] [False, True, False, True, True] False MEAN (Some 2)
     = Inr (Vol3 (110 / 3))"
proof -
  have S: "{i. i < length [False, True, False, True, True] \<and> [False, True, False, True, True] ! i}
      = {1, 3, 4}"
    by (auto simp: nth_Cons' less_Suc_eq numeral_eq_Suc)
  have h: "True \<in> set [False, True, False, True, True]"
    "length [False, True, False, True, True] \<le> length [10, 20, 30, 40, 50 :: real]"
    "Some (2::nat) \<noteq> Some 0" by simp_all
  show ?thesis
    using extract_b0_strategies [OF h] unfolding S
    by (simp add: upt_rec [of _ "numeral _"])
qed

text \<open>
  C3: with \<open>extract_in_cluster = True\<close>, for a mask and a block size as in C2, the
  clusters are the maximal contiguous runs of True entries of the mask in increasing
  order, and the output has one volume per
  cluster: with FIRST the first volume of the run, with MEAN the sum of the volumes of
  the run divided by the length of the run.
\<close>

theorem extract_b0_clusters:
  fixes dwi :: "'v::real_vector nifti"
  assumes "True \<in> set b0_mask" and "length b0_mask \<le> length dwi" and "block_size \<noteq> Some 0"
  shows "maximal_runs b0_mask (b0_clusters_of b0_mask) \<and>
         extract_b0 dwi b0_mask True FIRST block_size =
           Inr (Vol4 (map (\<lambda>(s, e). dwi ! s) (b0_clusters_of b0_mask))) \<and>
         extract_b0 dwi b0_mask True MEAN block_size =
           Inr (Vol4 (map (\<lambda>(s, e). (\<Sum>i = s..<e. dwi ! i) /\<^sub>R real (e - s))
                        (b0_clusters_of b0_mask)))"
proof (intro conjI)
  let ?idx = "np_where b0_mask"
  let ?cs = "b0_clusters_of b0_mask"
  let ?bs = "default_block_size block_size dwi"
  have bs: "?bs \<noteq> 0" using assms by (rule block_size_ok)
  show runs: "maximal_runs b0_mask ?cs" by (rule b0_clusters_maximal)
  show "extract_b0 dwi b0_mask True FIRST block_size =
           Inr (Vol4 (map (\<lambda>(s, e). dwi ! s) ?cs))"
  proof -
    have pre: "\<forall>r \<in> set ?cs. fst r < length dwi"
      using maximal_runD(1,2) [OF runs] assms(2) by fastforce
    from cluster_loop_first [OF pre, of 0 "replicate (length ?cs) 0" ?bs ?idx]
    obtain out' where o:
      "cluster_loop dwi ?bs FIRST ?idx (List.enumerate 0 ?cs) (replicate (length ?cs) 0) = Inr out'"
      "length out' = length ?cs"
      "\<forall>j < length ?cs. out' ! j = dwi ! fst (?cs ! j)"
      by auto
    have "out' = map (\<lambda>(s, e). dwi ! s) ?cs"
      using o(2,3) by (auto simp: list_eq_iff_nth_eq split_beta)
    with o(1) show ?thesis
      by (simp add: extract_b0_def Let_def)
  qed
  show "extract_b0 dwi b0_mask True MEAN block_size =
           Inr (Vol4 (map (\<lambda>(s, e). (\<Sum>i = s..<e. dwi ! i) /\<^sub>R real (e - s)) ?cs))"
  proof -
    have pre: "\<forall>r \<in> set ?cs. fst r < snd r"
      using maximal_runD(1) [OF runs] by simp
    from cluster_loop_mean [OF bs pre, of 0 "replicate (length ?cs) 0" dwi ?idx]
    obtain out' where o:
      "cluster_loop dwi ?bs MEAN ?idx (List.enumerate 0 ?cs) (replicate (length ?cs) 0) = Inr out'"
      "length out' = length ?cs"
      "\<forall>j < length ?cs. out' ! j =
          sum_list (slice dwi (fst (?cs ! j)) (snd (?cs ! j)))
            /\<^sub>R real (snd (?cs ! j) - fst (?cs ! j))"
      by auto
    have "out' ! j = (\<Sum>i = fst (?cs ! j)..<snd (?cs ! j). dwi ! i)
            /\<^sub>R real (snd (?cs ! j) - fst (?cs ! j))" if "j < length ?cs" for j
    proof -
      have "snd (?cs ! j) \<le> length dwi"
        using maximal_runD(2) [OF runs, of "?cs ! j"] that assms(2) by simp
      then show ?thesis using o(3) that by (simp add: sum_list_slice)
    qed
    then have "out' = map (\<lambda>(s, e). (\<Sum>i = s..<e. dwi ! i) /\<^sub>R real (e - s)) ?cs"
      using o(2) by (auto simp: list_eq_iff_nth_eq split_beta)
    with o(1) show ?thesis
      by (simp add: extract_b0_def Let_def)
  qed
qed

theorem extract_b0_clusters_witness:
  "True \<in> set [False, True, False, True, True] \<and>
   length [False, True, False, True, True] \<le> length [10, 20, 30, 40, 50 :: real] \<and>
   b0_clusters_of [False, True, False, True, True] = [(1, 2), (3, 5)] \<and>
   maximal_runs [False, True, False, True, True] [(1, 2), (3, 5)] \<and>
   extract_b0 [10, 20, 30, 40, 50 :: real] [False, True, False, True, True] True FIRST (Some 1)
     = Inr (Vol4 [20, 40]) \<and>
   extract_b0 [10, 20, 30, 40, 50 :: real] [False, True, False, True, True] True MEAN (Some 1)
     = Inr (Vol4 [20, 45])"
proof -
  have c: "b0_clusters_of [False, True, False, True, True] = [(1, 2), (3, 5)]"
    by (simp add: b0_clusters_of_def)
  have h: "True \<in> set [False, True, False, True, True]"
    "length [False, True, False, True, True] \<le> length [10, 20, 30, 40, 50 :: real]"
    "Some (1::nat) \<noteq> Some 0" by simp_all
  show ?thesis
    using extract_b0_clusters [OF h] unfolding c
    by (simp add: numeral_eq_Suc)
qed

section \<open>Intensity rescaling\<close>


lemma rhe_of_int [simp]: "round_half_even (of_int n) = n"
  by (simp add: round_half_even_def)















lemma ulp32_eval:
  assumes "2 powr of_int e \<le> \<bar>x\<bar>" "\<bar>x\<bar> < 2 powr of_int (e + 1)" "- 126 \<le> e"
  shows "ulp32 x = 2 powr of_int (e - 23)"
proof -
  have "0 < \<bar>x\<bar>" using assms(1) by (smt (verit) powr_gt_zero)
  then have "\<lfloor>log 2 \<bar>x\<bar>\<rfloor> = e"
    using assms(1,2) by (simp add: floor_log_eq_powr_iff)
  then show ?thesis using assms(3) by (simp add: ulp32_def)
qed

lemma float32_of_int:
  assumes "\<bar>m\<bar> < 2 ^ 24"
  shows "float32 (of_int m) = Num (of_int m)"
proof (cases "m = 0")
  case True
  then show ?thesis by (simp add: float32_def)
next
  case False
  define x :: real where "x = of_int m"
  define e where "e = \<lfloor>log 2 \<bar>x\<bar>\<rfloor>"
  have x1: "1 \<le> \<bar>x\<bar>" using False by (simp add: x_def flip: of_int_abs)
  have x2: "\<bar>x\<bar> < 2 ^ 24"
    using assms unfolding x_def by (metis of_int_abs of_int_less_iff of_int_numeral of_int_power)
  have e0: "0 \<le> e" unfolding e_def using x1 by simp
  have "log 2 \<bar>x\<bar> < 24"
    using x1 x2 by (simp add: log_less_iff powr_realpow [symmetric])
  then have e23: "e \<le> 23" unfolding e_def by (simp add: floor_le_iff)
  define k where "k = nat (23 - e)"
  have u: "ulp32 x = 1 / 2 ^ k"
  proof -
    have "ulp32 x = 2 powr of_int (e - 23)"
      using e0 by (simp add: ulp32_def e_def)
    also have "of_int (e - 23) = - real k" using e23 by (simp add: k_def)
    also have "2 powr (- real k) = 1 / 2 ^ k"
      by (simp add: powr_minus powr_realpow divide_simps)
    finally show ?thesis .
  qed
  have q: "x / ulp32 x = of_int (m * 2 ^ k)"
    unfolding u by (simp add: x_def)
  have "of_int (round_half_even (x / ulp32 x)) * ulp32 x = x"
    unfolding q rhe_of_int unfolding u by (simp add: x_def)
  moreover have "\<bar>x\<bar> < 2 powr 128"
    using x2 by (simp add: powr_realpow [symmetric])
  moreover have "x \<noteq> 0" using x1 by auto
  ultimately show ?thesis
    unfolding x_def [symmetric] by (simp add: float32_def Let_def)
qed

lemma float32_2p24_plus_1: "float32 16777217 = Num 16777216"
proof -
  have u: "ulp32 16777217 = 2"
    using ulp32_eval [of 24 16777217] by simp
  have r: "round_half_even (16777217 / 2) = 8388608"
    by (simp add: round_half_even_def)
  show ?thesis
    by (simp add: float32_def u r)
qed

lemma float32_tenth: "float32 (1 / 10) = Num (13421773 / 134217728)"
proof -
  have u: "ulp32 (1 / 10) = 1 / 134217728"
    using ulp32_eval [of "- 4" "1 / 10"] by (simp add: powr_minus divide_simps)
  have r: "round_half_even (1 / 10 / (1 / 134217728)) = 13421773"
    by (simp add: round_half_even_def)
  show ?thesis
    unfolding float32_def Let_def u r by (simp add: powr_minus)
qed

lemma rescale_rows_length: "length (rescale_rows f a b arr) = length arr"
  by (simp add: rescale_rows_def)

lemma rescale_rows_nth:
  "i < length arr \<Longrightarrow>
   rescale_rows f a b arr ! i = (if a \<le> i \<and> i < b then map f (arr ! i) else arr ! i)"
  by (simp add: rescale_rows_def)

lemma chunk_write:
  assumes "a \<le> b"
  shows "take a arr @ map (map f) (slice arr a b) @ drop b arr = rescale_rows f a b arr"
proof (rule nth_equalityI)
  show len: "length (take a arr @ map (map f) (slice arr a b) @ drop b arr) =
      length (rescale_rows f a b arr)"
    using assms by (simp add: rescale_rows_length slice_def)
  fix i assume "i < length (take a arr @ map (map f) (slice arr a b) @ drop b arr)"
  with len have i: "i < length arr" by (simp add: rescale_rows_length)
  consider "i < a" | "a \<le> i" "i < b" | "b \<le> i" by linarith
  then show "(take a arr @ map (map f) (slice arr a b) @ drop b arr) ! i =
      rescale_rows f a b arr ! i"
  proof cases
    case 1
    with i assms show ?thesis by (simp add: nth_append rescale_rows_nth)
  next
    case 2
    have la: "length (take a arr) = a" using 2 i by simp
    have ls: "i - a < length (map (map f) (slice arr a b))"
      using 2 i by (auto simp: slice_def)
    have "(take a arr @ map (map f) (slice arr a b) @ drop b arr) ! i =
        (map (map f) (slice arr a b) @ drop b arr) ! (i - a)"
      using 2 la by (simp add: nth_append)
    also have "\<dots> = map (map f) (slice arr a b) ! (i - a)"
      using ls by (simp add: nth_append)
    also have "\<dots> = map f (arr ! i)"
      using 2 i ls by (simp add: slice_def)
    finally show ?thesis using 2 i by (simp add: rescale_rows_nth)
  next
    case 3
    with i assms show ?thesis
      by (auto simp: nth_append rescale_rows_nth slice_def min_def)
  qed
qed

lemma rescale_rows_compose:
  assumes "a \<le> b" "b \<le> c"
  shows "rescale_rows f b c (rescale_rows f a b arr) = rescale_rows f a c arr"
  using assms by (intro nth_equalityI) (auto simp: rescale_rows_length rescale_rows_nth)

lemma rescale_rows_empty: "rescale_rows f a a arr = arr"
  by (intro nth_equalityI) (auto simp: rescale_rows_length rescale_rows_nth)


lemma rescale_chunks_sorted:
  "sorted (a # chunk) \<Longrightarrow>
   rescale_chunks f bc_data (a # chunk) h =
   h(bc_data := rescale_rows f a (last (a # chunk)) (h bc_data))"
proof (induction chunk arbitrary: a h)
  case Nil
  then show ?case by (simp add: rescale_rows_empty)
next
  case (Cons b chunk)
  define l where "l = last (b # chunk)"
  have ab: "a \<le> b" and s: "sorted (b # chunk)" and bl: "b \<le> l"
    using Cons.prems by (auto simp: l_def last_conv_nth dest: nth_mem)
  have "rescale_chunks f bc_data (a # b # chunk) h =
      rescale_chunks f bc_data (b # chunk) (h(bc_data := rescale_rows f a b (h bc_data)))"
    using ab by (simp add: chunk_write)
  also have "\<dots> = (h(bc_data := rescale_rows f a b (h bc_data)))
      (bc_data := rescale_rows f b l (rescale_rows f a b (h bc_data)))"
    unfolding Cons.IH [OF s] l_def by simp
  also have "\<dots> = h(bc_data := rescale_rows f a l (h bc_data))"
    by (simp add: rescale_rows_compose [OF ab bl])
  finally show ?case by (simp add: l_def)
qed

lemma chunk_bounds_shape:
  assumes "0 < step"
  shows "\<exists>rest. chunk_bounds step n = 0 # rest \<and> sorted (0 # rest) \<and> last (0 # rest) = n"
proof -
  define m where "m = (n + step - 1) div step"
  define ks where "ks = map (\<lambda>k. k * step) [0..<m]"
  have cb: "chunk_bounds step n = ks @ [n]"
    by (simp add: chunk_bounds_def ks_def m_def)
  have below: "k * step \<le> n" if "k < m" for k
  proof -
    from that have "Suc k \<le> (n + step - 1) div step" by (simp add: m_def)
    then have "Suc k * step \<le> n + step - 1"
      using assms by (simp add: less_eq_div_iff_mult_less_eq)
    then show ?thesis using assms by simp
  qed
  have sorted_ks: "sorted ks"
    by (auto simp: ks_def sorted_iff_nth_mono)
  have srt: "sorted (ks @ [n])"
    using sorted_ks below by (auto simp: sorted_append ks_def)
  have hd0: "hd (ks @ [n]) = 0"
  proof (cases "m = 0")
    case True
    then have "n + step - 1 < step" using assms by (simp add: m_def div_eq_0_iff)
    then have "n = 0" by simp
    with True show ?thesis by (simp add: ks_def)
  next
    case False
    then have "ks \<noteq> []" by (simp add: ks_def)
    moreover have "hd ks = 0" using False by (simp add: ks_def hd_map upt_conv_Cons)
    ultimately show ?thesis by simp
  qed
  have "ks @ [n] = 0 # tl (ks @ [n])"
    using hd0 by (cases "ks @ [n]") auto
  moreover have "last (ks @ [n]) = n" by simp
  ultimately show ?thesis
    using srt cb by metis
qed


lemma rescale_dwi_chunked_run:
  assumes "amin (h in_data) = Inr in_min" "amax (h in_data) = Inr in_max"
    and "amin (h bc_data) = Inr bc_min" "amax (h bc_data) = Inr bc_max" and "0 < step"
  shows "rescale_dwi_chunked step h in_data bc_data =
     Inr (bc_data, h(bc_data := rescale_rows
       (rescale_func (fdiv (fsub in_max in_min) (fsub bc_max bc_min)) in_max bc_max)
       0 (length (h in_data)) (h bc_data)))"
proof -
  obtain rest where c: "chunk_bounds step (length (h in_data)) = 0 # rest"
    "sorted (0 # rest)" "last (0 # rest) = length (h in_data)"
    using chunk_bounds_shape [OF assms(5)] by blast
  show ?thesis
    using assms unfolding rescale_dwi_chunked_def Let_def c(1) rescale_chunks_sorted [OF c(2)] c(3)
    by simp
qed

lemma amin_amax_defined:
  "concat arr \<noteq> [] \<Longrightarrow> \<exists>lo hi. amin arr = Inr lo \<and> amax arr = Inr hi"
  by (cases "concat arr") (simp_all add: amin_def amax_def)













lemma float32_zero: "float32 0 = Num 0"
  by (simp add: float32_def)




lemma float32_small:
  "float32 2 = Num 2" "float32 4 = Num 4" "float32 8 = Num 8"
  using float32_of_int [of 2] float32_of_int [of 4] float32_of_int [of 8] by simp_all


text \<open>
  C9: for two different array objects with elements, \<open>rescale_dwi\<close> returns the object
  \<open>bc_data\<close> itself; its contents are rewritten, the sub-arrays below \<open>len(in_data)\<close>
  elementwise by \<open>rescale_func\<close>; the store changes at no other address, and the
  contents of \<open>in_data\<close> are the same after the call.
\<close>

theorem rescale_dwi_in_place:
  assumes "in_data \<noteq> bc_data" and "concat (h in_data) \<noteq> []" and "concat (h bc_data) \<noteq> []"
  shows "\<exists>in_min in_max bc_min bc_max h'.
     amin (h in_data) = Inr in_min \<and> amax (h in_data) = Inr in_max \<and>
     amin (h bc_data) = Inr bc_min \<and> amax (h bc_data) = Inr bc_max \<and>
     rescale_dwi h in_data bc_data = Inr (bc_data, h') \<and>
     h' bc_data = rescale_rows
       (rescale_func (fdiv (fsub in_max in_min) (fsub bc_max bc_min)) in_max bc_max)
       0 (length (h in_data)) (h bc_data) \<and>
     h' in_data = h in_data \<and>
     (\<forall>a. a \<noteq> bc_data \<longrightarrow> h' a = h a)"
proof -
  obtain in_min in_max where i: "amin (h in_data) = Inr in_min" "amax (h in_data) = Inr in_max"
    using amin_amax_defined [OF assms(2)] by blast
  obtain bc_min bc_max where b: "amin (h bc_data) = Inr bc_min" "amax (h bc_data) = Inr bc_max"
    using amin_amax_defined [OF assms(3)] by blast
  define rows where "rows = rescale_rows
       (rescale_func (fdiv (fsub in_max in_min) (fsub bc_max bc_min)) in_max bc_max)
       0 (length (h in_data)) (h bc_data)"
  have run: "rescale_dwi h in_data bc_data = Inr (bc_data, h(bc_data := rows))"
    unfolding rescale_dwi_def rows_def by (rule rescale_dwi_chunked_run [OF i b]) simp
  have "(h(bc_data := rows)) bc_data = rows" "(h(bc_data := rows)) in_data = h in_data"
    "\<forall>a. a \<noteq> bc_data \<longrightarrow> (h(bc_data := rows)) a = h a"
    using assms(1) by simp_all
  with i b run show ?thesis
    unfolding rows_def by blast
qed

theorem rescale_dwi_in_place_witness:
  "let h = (\<lambda>a. [])(0 := [[Num 0, Num 8], [Num 2, Num 3]], 1 := [[Num 1, Num 2], [Num 3, Num 5]]);
       h' = h(1 := [[Num 0, Num 2], [Num 4, Num 8]])
   in (0::nat) \<noteq> 1 \<and> concat (h 0) \<noteq> [] \<and> concat (h 1) \<noteq> [] \<and>
      rescale_dwi h 0 1 = Inr (1, h') \<and> h' 0 = h 0 \<and> h' 2 = h 2 \<and> h' 1 \<noteq> h 1"
proof -
  define h :: store where
    "h = (\<lambda>a. [])(0 := [[Num 0, Num 8], [Num 2, Num 3]], 1 := [[Num 1, Num 2], [Num 3, Num 5]])"
  define h' :: store where "h' = h(1 := [[Num 0, Num 2], [Num 4, Num 8]])"
  have hyp: "(0::nat) \<noteq> 1" "concat (h 0) \<noteq> []" "concat (h 1) \<noteq> []"
    by (simp_all add: h_def)
  have st: "amin (h 0) = Inr (Num 0)" "amax (h 0) = Inr (Num 8)"
    "amin (h 1) = Inr (Num 1)" "amax (h 1) = Inr (Num 5)"
    by (simp_all add: h_def amin_def amax_def np_min2_def np_max2_def)
  from rescale_dwi_in_place [OF hyp] obtain g where
    "rescale_dwi h 0 1 = Inr (1, g)"
    "g 1 = rescale_rows (rescale_func (fdiv (fsub (Num 8) (Num 0)) (fsub (Num 5) (Num 1)))
             (Num 8) (Num 5)) 0 (length (h 0)) (h 1)"
    "\<forall>a. a \<noteq> 1 \<longrightarrow> g a = h a"
    unfolding st by auto
  moreover have "rescale_rows (rescale_func (fdiv (fsub (Num 8) (Num 0)) (fsub (Num 5) (Num 1)))
             (Num 8) (Num 5)) 0 (length (h 0)) (h 1) = [[Num 0, Num 2], [Num 4, Num 8]]"
    by (simp add: h_def rescale_rows_def rescale_func_def rescale_intensity_def astype_float32_def
        float32_small float32_zero upt_rec [of _ "numeral _"])
  ultimately have "rescale_dwi h 0 1 = Inr (1, h')"
    unfolding h'_def by (auto intro!: ext)
  moreover have "h' 1 \<noteq> h 1" "h' 0 = h 0" "h' 2 = h 2" by (simp_all add: h_def h'_def)
  ultimately show ?thesis
    using hyp unfolding Let_def h'_def h_def by simp
qed

text \<open>
  The two objects must differ: called with one array for both arguments, \<open>rescale_dwi\<close>
  rewrites that array. The slope is then 1 and every element is replaced by its
  single-precision rounding.
\<close>

lemma rescale_dwi_same_object:
  "(case rescale_dwi ((\<lambda>a. [])(0 := [[Num 0], [Num 16777217]])) 0 0 of
      Inl e \<Rightarrow> [] | Inr (r, h') \<Rightarrow> h' 0) = [[Num 0], [Num 16777216]]"
  by (simp add: rescale_dwi_def rescale_dwi_chunked_def amin_def amax_def np_min2_def np_max2_def
      chunk_bounds_def rescale_func_def rescale_intensity_def astype_float32_def slice_def
      float32_2p24_plus_1 float32_zero)

text \<open>
  With \<open>bc_max = bc_min\<close> the call returns as well, and the array holds not-a-number
  values.
\<close>

lemma rescale_dwi_zero_range:
  "(case rescale_dwi ((\<lambda>a. [])(0 := [[Num 0], [Num 8]], 1 := [[Num 3], [Num 3]])) 0 1 of
      Inl e \<Rightarrow> [] | Inr (r, h') \<Rightarrow> h' 1) = [[NaN], [NaN]]"
  by (simp add: rescale_dwi_def rescale_dwi_chunked_def amin_def amax_def np_min2_def np_max2_def
      chunk_bounds_def rescale_func_def rescale_intensity_def astype_float32_def slice_def
      signed_inf_def)

section \<open>Gradient tables\<close>

lemma mrtrix_line_ok:
  assumes "3 \<le> length bvecs" "\<forall>row \<in> set bvecs. length row = N" "length shell_idx = N"
    "\<forall>i \<in> set shell_idx. - int (length bvals) \<le> i \<and> i < int (length bvals)" "idx < N"
  shows "mrtrix_line bvecs shell_idx bvals idx =
     Inr [bvecs ! 0 ! idx, bvecs ! 1 ! idx, bvecs ! 2 ! idx, py_get bvals (shell_idx ! idx)]"
proof -
  have rows: "length (bvecs ! r) = N" if "r < 3" for r
    using assms(1,2) that by simp
  have "shell_idx ! idx \<in> set shell_idx" using assms(3,5) by simp
  with assms(4) have "py_index bvals (shell_idx ! idx) = Inr (py_get bvals (shell_idx ! idx))"
    by (simp add: py_index_def)
  moreover have "0 < length bvecs" "1 < length bvecs" "2 < length bvecs"
    using assms(1) by linarith+
  ultimately show ?thesis
    using assms(3,5) rows [of 0] rows [of 1] rows [of 2]
    by (simp add: mrtrix_line_def index2_def)
qed

lemma mrtrix_lines_ok:
  assumes "3 \<le> length bvecs" "\<forall>row \<in> set bvecs. length row = N" "length shell_idx = N"
    "\<forall>i \<in> set shell_idx. - int (length bvals) \<le> i \<and> i < int (length bvals)"
  shows "\<forall>idx \<in> set idxs. idx < N \<Longrightarrow>
     mrtrix_lines bvecs shell_idx bvals idxs =
     (map (\<lambda>idx. [bvecs ! 0 ! idx, bvecs ! 1 ! idx, bvecs ! 2 ! idx,
                   py_get bvals (shell_idx ! idx)]) idxs, None)"
proof (induction idxs)
  case Nil
  then show ?case by simp
next
  case (Cons idx idxs)
  then show ?case
    using mrtrix_line_ok [OF assms, of idx] by simp
qed

lemma index_all_ok:
  "\<forall>i \<in> set idxs. - int (length bvals) \<le> i \<and> i < int (length bvals) \<Longrightarrow>
   index_all bvals idxs = Inr (map (py_get bvals) idxs)"
  by (induction idxs) (simp_all add: py_index_def)

text \<open>
  C6: for \<open>bvecs\<close> with three rows and \<open>N\<close> columns, \<open>shell_idx\<close> of length \<open>N\<close> and shell
  indices that \<open>bvals\<close> has, the MRtrix writer writes exactly \<open>N\<close> lines, line \<open>idx\<close> holding
  \<open>bvecs[0, idx]\<close>, \<open>bvecs[1, idx]\<close>, \<open>bvecs[2, idx]\<close> and \<open>bvals[shell_idx[idx]]\<close>; the FSL
  writer writes \<open>bvecs\<close> to the bvec file and one row, the b-values
  \<open>bvals[shell_idx[idx]]\<close> for \<open>idx = 0..N-1\<close>, to the bval file. The last column of the
  MRtrix table is that row.
\<close>

theorem gradient_writers_same_bvals:
  assumes "3 \<le> length bvecs" and "\<forall>row \<in> set bvecs. length row = N"
    and "length shell_idx = N"
    and "\<forall>i \<in> set shell_idx. - int (length bvals) \<le> i \<and> i < int (length bvals)"
  shows "\<exists>table row.
     save_gradient_sampling_mrtrix bvecs shell_idx bvals filename = ([(filename, table)], None) \<and>
     length table = N \<and>
     (\<forall>idx < N. table ! idx =
        [bvecs ! 0 ! idx, bvecs ! 1 ! idx, bvecs ! 2 ! idx, py_get bvals (shell_idx ! idx)]) \<and>
     save_gradient_sampling_fsl bvecs shell_idx bvals filename_bval filename_bvec =
       ([(filename_bvec, bvecs), (filename_bval, [row])], None) \<and>
     length row = N \<and>
     (\<forall>idx < N. row ! idx = py_get bvals (shell_idx ! idx)) \<and>
     map last table = row"
proof -
  let ?line = "\<lambda>idx. [bvecs ! 0 ! idx, bvecs ! 1 ! idx, bvecs ! 2 ! idx,
                   py_get bvals (shell_idx ! idx)]"
  let ?table = "map ?line [0..<N]"
  let ?row = "map (py_get bvals) shell_idx"
  have "bvecs \<noteq> []" using assms(1) by auto
  then have n: "shape1 bvecs = N"
    using assms(2) by (cases bvecs) (simp_all add: shape1_def)
  have m: "save_gradient_sampling_mrtrix bvecs shell_idx bvals filename = ([(filename, ?table)], None)"
    using mrtrix_lines_ok [OF assms, of "[0..<N]"] by (simp add: save_gradient_sampling_mrtrix_def n)
  have f: "save_gradient_sampling_fsl bvecs shell_idx bvals filename_bval filename_bvec =
       ([(filename_bvec, bvecs), (filename_bval, [?row])], None)"
    using index_all_ok [OF assms(4)] by (simp add: save_gradient_sampling_fsl_def)
  have same: "map last ?table = ?row"
    using assms(3) by (auto simp: list_eq_iff_nth_eq)
  have t: "length ?table = N" "\<forall>idx < N. ?table ! idx = ?line idx" by simp_all
  have r: "length ?row = N" "\<forall>idx < N. ?row ! idx = py_get bvals (shell_idx ! idx)"
    using assms(3) by simp_all
  show ?thesis
    apply (rule exI [of _ ?table])
    apply (rule exI [of _ ?row])
    using m f same t r by blast
qed

theorem gradient_writers_same_bvals_witness:
  "3 \<le> length [[1, 0], [0, 1], [0, 0 :: real]] \<and>
   map length [[1, 0], [0, 1], [0, 0 :: real]] = [2, 2, 2] \<and>
   length [1, 0 :: int] = 2 \<and>
   set [1, 0 :: int] \<subseteq> {- int (length [0, 1000 :: real])..<int (length [0, 1000 :: real])} \<and>
   save_gradient_sampling_mrtrix [[1, 0], [0, 1], [0, 0]] [1, 0] [0, 1000] ''grad.b'' =
     ([(''grad.b'', [[1, 0, 0, 1000], [0, 1, 0, 0]])], None) \<and>
   save_gradient_sampling_fsl [[1, 0], [0, 1], [0, 0]] [1, 0] [0, 1000] ''grad.bval'' ''grad.bvec'' =
     ([(''grad.bvec'', [[1, 0], [0, 1], [0, 0]]), (''grad.bval'', [[1000, 0]])], None)"
proof -
  have h: "3 \<le> length [[1, 0], [0, 1], [0, 0 :: real]]"
    "\<forall>row \<in> set [[1, 0], [0, 1], [0, 0 :: real]]. length row = 2"
    "length [1, 0 :: int] = 2"
    "\<forall>i \<in> set [1, 0 :: int]. - int (length [0, 1000 :: real]) \<le> i \<and> i < int (length [0, 1000 :: real])"
    by simp_all
  from gradient_writers_same_bvals [OF h, of "''grad.b''" "''grad.bval''" "''grad.bvec''"]
  obtain table row where
    "save_gradient_sampling_mrtrix [[1, 0], [0, 1], [0, 0]] [1, 0] [0, 1000] ''grad.b'' =
       ([(''grad.b'', table)], None)"
    "length table = 2"
    "\<forall>idx < 2. table ! idx = [[[1, 0], [0, 1], [0, 0 :: real]] ! 0 ! idx,
        [[1, 0], [0, 1], [0, 0]] ! 1 ! idx, [[1, 0], [0, 1], [0, 0]] ! 2 ! idx,
        py_get [0, 1000] ([1, 0] ! idx)]"
    "save_gradient_sampling_fsl [[1, 0], [0, 1], [0, 0]] [1, 0] [0, 1000] ''grad.bval'' ''grad.bvec'' =
       ([(''grad.bvec'', [[1, 0], [0, 1], [0, 0]]), (''grad.bval'', [row])], None)"
    "map last table = row"
    by blast
  moreover from this(2,3) have "table = [[1, 0, 0, 1000], [0, 1, 0, 0]]"
    by (auto simp: list_eq_iff_nth_eq less_Suc_eq numeral_2_eq_2 py_get_def)
  ultimately show ?thesis using h by auto
qed

section \<open>Removal of invalid streamlines\<close>

lemma select_select:
  "\<forall>j \<in> set k2. j < length k1 \<Longrightarrow> select (select xs k1) k2 = select xs (select k1 k2)"
  by (simp add: select_def)

lemma select_dict_select:
  "\<forall>j \<in> set k2. j < length k1 \<Longrightarrow>
   select_dict (select_dict d k1) k2 = select_dict d (select k1 k2)"
  by (rule ext) (simp add: select_dict_def select_select option.map_comp comp_def)

lemma select_filter_upt:
  "select xs (filter (\<lambda>i. P (xs ! i)) [0..<length xs]) = filter P xs"
proof -
  have "filter P xs = filter P (map (\<lambda>i. xs ! i) [0..<length xs])"
    by (simp add: map_nth)
  also have "\<dots> = map (\<lambda>i. xs ! i) (filter (\<lambda>i. P (xs ! i)) [0..<length xs])"
    by (simp add: filter_map comp_def)
  finally show ?thesis by (simp add: select_def)
qed

lemma select_kept:
  "select (filter V [0..<n]) (filter (\<lambda>j. Q (filter V [0..<n] ! j)) [0..<length (filter V [0..<n])])
     = filter (\<lambda>i. V i \<and> Q i) [0..<n]"
  using select_filter_upt [where P = Q and xs = "filter V [0..<n]"] by simp

text \<open>
  C7: the tractogram saved by the script holds exactly the loaded streamlines that lie
  within the bounds of the volume and, when (and only when) \<open>--remove_single_point\<close> is
  given, have more than one point; they keep their relative order, the per-point and
  per-streamline data are restricted to the same indices, and the logged number is the
  number of loaded streamlines minus the number of saved ones.
\<close>

theorem remove_invalid_main_result:
  "let n = length (streamlines loaded);
             kept = filter (\<lambda>i. kept_streamline remove_single_point (dimensions loaded)
                                  (streamlines loaded ! i)) [0..<n];
             (new_sft, removed) = remove_invalid_main remove_single_point loaded
         in streamlines new_sft =
              filter (kept_streamline remove_single_point (dimensions loaded)) (streamlines loaded) \<and>
            streamlines new_sft = select (streamlines loaded) kept \<and>
            data_per_point new_sft = select_dict (data_per_point loaded) kept \<and>
            data_per_streamline new_sft = select_dict (data_per_streamline loaded) kept \<and>
            sorted_wrt (<) kept \<and> (\<forall>i \<in> set kept. i < n) \<and>
            removed = int n - int (length (streamlines new_sft))"
proof -
  define S where "S = streamlines loaded"
  define n where "n = length S"
  define V where "V = (\<lambda>i. valid_streamline (dimensions loaded) (S ! i))"
  define Q where "Q = (\<lambda>i. remove_single_point \<longrightarrow> length (S ! i) > 1)"
  define k1 where "k1 = filter V [0..<n]"
  define sft where "sft = remove_invalid_streamlines loaded"
  define k2 where "k2 = (if remove_single_point
             then filter (\<lambda>i. length (streamlines sft ! i) > 1) [0..<length (streamlines sft)]
             else [0..<length (streamlines sft)])"
  define kept where
    "kept = filter (\<lambda>i. kept_streamline remove_single_point (dimensions loaded) (S ! i)) [0..<n]"
  have s1: "streamlines sft = select S k1"
    "data_per_point sft = select_dict (data_per_point loaded) k1"
    "data_per_streamline sft = select_dict (data_per_streamline loaded) k1"
    by (simp_all add: sft_def remove_invalid_streamlines_def Let_def k1_def V_def n_def S_def)
  have len1: "length (streamlines sft) = length k1"
    by (simp add: s1 select_def)
  have k2: "k2 = filter (\<lambda>j. Q (k1 ! j)) [0..<length k1]"
    unfolding k2_def len1 by (auto simp: s1 select_def Q_def intro: filter_cong)
  have k2_bound: "\<forall>j \<in> set k2. j < length k1"
    unfolding k2 by simp
  have "select k1 k2 = filter (\<lambda>i. V i \<and> Q i) [0..<n]"
    unfolding k2 k1_def by (rule select_kept)
  then have sel: "select k1 k2 = kept"
    by (simp add: kept_def kept_streamline_def V_def Q_def)
  have main: "remove_invalid_main remove_single_point loaded =
      (sft\<lparr>streamlines := select (streamlines sft) k2,
           data_per_point := select_dict (data_per_point sft) k2,
           data_per_streamline := select_dict (data_per_streamline sft) k2\<rparr>,
       int n - int (length (select (streamlines sft) k2)))"
    by (simp add: remove_invalid_main_def Let_def sft_def k2_def n_def S_def)
  have a: "select (streamlines sft) k2 = select S kept"
    unfolding s1 select_select [OF k2_bound] sel ..
  have b: "select_dict (data_per_point sft) k2 = select_dict (data_per_point loaded) kept"
    unfolding s1 select_dict_select [OF k2_bound] sel ..
  have c: "select_dict (data_per_streamline sft) k2 = select_dict (data_per_streamline loaded) kept"
    unfolding s1 select_dict_select [OF k2_bound] sel ..
  have flt: "select S kept = filter (kept_streamline remove_single_point (dimensions loaded)) S"
    unfolding kept_def n_def by (rule select_filter_upt)
  have srt: "sorted_wrt (<) kept"
    unfolding kept_def by (intro sorted_wrt_filter) (simp add: sorted_wrt_upt)
  have bnd: "\<forall>i \<in> set kept. i < n"
    by (simp add: kept_def)
  show ?thesis
    using flt srt bnd
    unfolding Let_def main a b c S_def [symmetric] n_def [symmetric] kept_def [symmetric]
    by simp
qed

theorem remove_invalid_main_result_witness:
  "let loaded = \<lparr>streamlines = [[(1, 1, 1), (2, 2, 2)], [(-1, 0, 0), (1, 1, 1)], [(3, 3, 3)],
                                  [(4, 4, 4), (5, 5, 11)], [(6, 6, 6), (7, 7, 7)]],
                   data_per_point = [''color'' \<mapsto> [10, 20, 30, 40, 50 :: nat]],
                   data_per_streamline = [''length'' \<mapsto> [2, 2, 1, 2, 2 :: nat]],
                   dimensions = (10, 10, 10)\<rparr>
   in streamlines (fst (remove_invalid_main True loaded)) =
        [[(1, 1, 1), (2, 2, 2)], [(6, 6, 6), (7, 7, 7)]] \<and>
      data_per_point (fst (remove_invalid_main True loaded)) ''color'' = Some [10, 50] \<and>
      snd (remove_invalid_main True loaded) = 3 \<and>
      streamlines (fst (remove_invalid_main False loaded)) =
        [[(1, 1, 1), (2, 2, 2)], [(3, 3, 3)], [(6, 6, 6), (7, 7, 7)]] \<and>
      data_per_streamline (fst (remove_invalid_main False loaded)) ''length'' = Some [2, 1, 2] \<and>
      snd (remove_invalid_main False loaded) = 2"
proof -
  define loaded :: "(nat, nat) tractogram" where
    "loaded = \<lparr>streamlines = [[(1, 1, 1), (2, 2, 2)], [(-1, 0, 0), (1, 1, 1)], [(3, 3, 3)],
                                  [(4, 4, 4), (5, 5, 11)], [(6, 6, 6), (7, 7, 7)]],
                   data_per_point = [''color'' \<mapsto> [10, 20, 30, 40, 50 :: nat]],
                   data_per_streamline = [''length'' \<mapsto> [2, 2, 1, 2, 2 :: nat]],
                   dimensions = (10, 10, 10)\<rparr>"
  have kept: "filter (\<lambda>i. kept_streamline b (dimensions loaded) (streamlines loaded ! i))
        [0..<5] = (if b then [0, 4] else [0, 2, 4])" for b
    by (simp add: loaded_def kept_streamline_def valid_streamline_def point_in_bounds_def
        upt_rec [of _ "numeral _"])
  have n: "length (streamlines loaded) = 5" by (simp add: loaded_def)
  note rT = remove_invalid_main_result [of loaded True, unfolded Let_def n kept split_beta if_True]
  note rF = remove_invalid_main_result [of loaded False, unfolded Let_def n kept split_beta if_False]
  have t: "streamlines (fst (remove_invalid_main True loaded)) = select (streamlines loaded) [0, 4]"
    "data_per_point (fst (remove_invalid_main True loaded)) =
       select_dict (data_per_point loaded) [0, 4]"
    "snd (remove_invalid_main True loaded) =
       int 5 - int (length (streamlines (fst (remove_invalid_main True loaded))))"
    using rT by blast+
  have f: "streamlines (fst (remove_invalid_main False loaded)) = select (streamlines loaded) [0, 2, 4]"
    "data_per_streamline (fst (remove_invalid_main False loaded)) =
       select_dict (data_per_streamline loaded) [0, 2, 4]"
    "snd (remove_invalid_main False loaded) =
       int 5 - int (length (streamlines (fst (remove_invalid_main False loaded))))"
    using rF by blast+
  have "streamlines (fst (remove_invalid_main True loaded)) =
        [[(1, 1, 1), (2, 2, 2)], [(6, 6, 6), (7, 7, 7)]] \<and>
      data_per_point (fst (remove_invalid_main True loaded)) ''color'' = Some [10, 50] \<and>
      snd (remove_invalid_main True loaded) = 3"
    unfolding t by (simp add: select_def select_dict_def loaded_def)
  moreover have "streamlines (fst (remove_invalid_main False loaded)) =
        [[(1, 1, 1), (2, 2, 2)], [(3, 3, 3)], [(6, 6, 6), (7, 7, 7)]] \<and>
      data_per_streamline (fst (remove_invalid_main False loaded)) ''length'' = Some [2, 1, 2] \<and>
      snd (remove_invalid_main False loaded) = 2"
    unfolding f by (simp add: select_def select_dict_def loaded_def)
  ultimately show ?thesis
    unfolding Let_def loaded_def by simp
qed

end
